theory Spec2Isabelle
  imports Main
begin

section \<open>Python values, errors and responses\<close>

text \<open>
  The exceptions the modelled code can raise.  \<open>HookError\<close> stands for an exception raised
  by an overridable hook of a view (its text is the exception's message).
\<close>

datatype error =
    ValueError
  | TypeError
  | IndexError
  | NameError
  | MultipleObjectsReturned
  | FileNotFoundError
  | FileExistsError
  | NotADirectoryError
  | IsADirectoryError
  | JSONDecodeError
  | HookError string

text \<open>
  The Python values that travel through the response envelope and the hook results.
  A dict is an association list in insertion order.
\<close>

datatype pyval =
    PNone
  | PBool bool
  | PInt int
  | PStr string
  | PList "pyval list"
  | PDict "(string \<times> pyval) list"
  | PExc error

text \<open>Python truthiness, as \<open>if error:\<close> tests it.\<close>

fun truthy :: "pyval \<Rightarrow> bool" where
  "truthy PNone = False"
| "truthy (PBool b) = b"
| "truthy (PInt i) = (i \<noteq> 0)"
| "truthy (PStr s) = (s \<noteq> [])"
| "truthy (PList xs) = (xs \<noteq> [])"
| "truthy (PDict d) = (d \<noteq> [])"
| "truthy (PExc e) = True"

text \<open>\<open>d[key] = value\<close> on a dict: an existing key keeps its position.\<close>

fun set_item :: "(string \<times> pyval) list \<Rightarrow> string \<Rightarrow> pyval \<Rightarrow> (string \<times> pyval) list" where
  "set_item [] k v = [(k, v)]"
| "set_item ((k', v') # d) k v = (if k' = k then (k, v) # d else (k', v') # set_item d k v)"

text \<open>A \<open>Response\<close> (or \<open>HttpResponse\<close>): its payload and its HTTP status.\<close>

record response =
  data :: pyval
  status :: nat

definition HTTP_200_OK :: nat where "HTTP_200_OK = 200"
definition HTTP_201_CREATED :: nat where "HTTP_201_CREATED = 201"
definition HTTP_400_BAD_REQUEST :: nat where "HTTP_400_BAD_REQUEST = 400"
definition HTTP_401_UNAUTHORIZED :: nat where "HTTP_401_UNAUTHORIZED = 401"
definition HTTP_403_FORBIDDEN :: nat where "HTTP_403_FORBIDDEN = 403"

subsection \<open>BasicResponseMixin\<close>

definition main_body :: "(string \<times> pyval) list" where
  "main_body =
     [(''result'', PStr ''''), (''total'', PInt 0), (''extra'', PDict []), (''data'', PStr '''')]"

text \<open>
  \<open>set_response(result, data, extra, status)\<close>; a caller that leaves \<open>data\<close> or
  \<open>extra\<close> out passes \<open>PNone\<close>, and one that leaves \<open>status\<close> out passes
  \<open>HTTP_200_OK\<close>.
\<close>

definition set_response :: "pyval \<Rightarrow> pyval \<Rightarrow> pyval \<Rightarrow> nat \<Rightarrow> response" where
  "set_response result dat extra st =
     (let response = main_body;
          response = set_item response ''result'' result;
          response = set_item response ''data'' (if dat \<noteq> PNone then dat else PDict []);
          response = set_item response ''extra'' (if extra \<noteq> PNone then extra else PDict []);
          response = set_item response ''total''
                       (case dat of PList xs \<Rightarrow> PInt (int (length xs)) | _ \<Rightarrow> PInt 0)
      in \<lparr>data = PDict response, status = st\<rparr>)"

section \<open>Requests\<close>

text \<open>
  A request: the query string as the list of its key/value pairs, the \<open>META\<close> dict, and
  the \<open>user\<close> attribute that \<open>dispatch\<close> sets.
\<close>

record request =
  query_params :: "(string \<times> string) list"
  META :: "string \<rightharpoonup> string"
  user :: pyval



section \<open>BasicAuthPermissionViewMixin\<close>

text \<open>
  The view's overridable checks and the method handler that \<open>super().dispatch\<close> reaches.
  \<open>check_authentication\<close> returns \<open>(is_auth, user)\<close>, \<open>check_permission\<close> returns
  \<open>has_perm\<close>; both are documented as \<open>bool\<close>.
\<close>

record auth_view =
  check_authentication :: "request \<Rightarrow> bool \<times> pyval"
  check_permission :: "request \<Rightarrow> bool"
  super_dispatch :: "request \<Rightarrow> response"

text \<open>What \<open>dispatch\<close> called, in order.\<close>

datatype call = CheckAuthentication | CheckPermission | MethodHandler

definition dispatch :: "auth_view \<Rightarrow> request \<Rightarrow> response \<times> call list" where
  "dispatch self req =
     (let (is_auth, usr) = check_authentication self req;
          req = req\<lparr>user := usr\<rparr>
      in if is_auth = False
         then (\<lparr>data = PStr ''Unauthorized'', status = HTTP_401_UNAUTHORIZED\<rparr>,
               [CheckAuthentication])
         else let has_perm = check_permission self req
              in if has_perm = False
                 then (\<lparr>data = PStr ''No permission'', status = HTTP_403_FORBIDDEN\<rparr>,
                       [CheckAuthentication, CheckPermission])
                 else (super_dispatch self req,
                       [CheckAuthentication, CheckPermission, MethodHandler]))"

text \<open>
  The mixin's own checks.  \<open>per_base\<close> is \<open>permissions.PER_BASE\<close>, a constant of a module
  that is not among the sources; \<open>obj\<close> is the fresh \<open>object()\<close> standing for the user.
\<close>

definition default_check_authentication :: "bool \<Rightarrow> pyval \<Rightarrow> request \<Rightarrow> bool \<times> pyval" where
  "default_check_authentication authentication_enable obj req =
     (if authentication_enable = False then (True, PNone) else (True, obj))"

definition default_check_permission :: "string \<Rightarrow> string \<Rightarrow> bool \<Rightarrow> request \<Rightarrow> bool" where
  "default_check_permission per_base permission_name permission_enable req =
     (let has_perm = True
      in if permission_name = per_base then has_perm
         else if permission_enable then has_perm else has_perm)"

section \<open>BasicListModelMixin.paginate\<close>











section \<open>The CRUD flows\<close>

text \<open>
  What a call of a hook does: it raises (\<open>Inl\<close>) or returns a value.  The hooks are the
  overridable methods of the mixins; each flow takes the results of its hooks as arguments, named
  as the methods are.  The hooks that report return \<open>(error, reason)\<close>, with more components
  where the source has them; \<open>error\<close> is tested for truthiness.
\<close>

type_synonym 'a hook = "error + 'a"

text \<open>How a view method ends: it returns a response, or an exception leaves it.\<close>

datatype outcome = Returned response | Raised error

text \<open>
  \<open>views.py\<close> calls \<open>logger.error\<close> on its error paths, and neither imports nor defines the
  name \<open>logger\<close>.  Whether the name is bound when the module runs is a parameter of the model:
  unbound, as the file leaves it, the call raises \<open>NameError\<close>.
\<close>

definition logger_error :: "bool \<Rightarrow> error option" where
  "logger_error logger_bound = (if logger_bound then None else Some NameError)"

text \<open>
  The block that most error paths share:
  \<open>transaction.set_rollback(True); logger.error(...); return self.set_response(error, reason, status=400)\<close>.
  The second component of a flow's result tells whether \<open>set_rollback(True)\<close> was called.
\<close>

definition reject :: "bool \<Rightarrow> pyval \<Rightarrow> pyval \<Rightarrow> outcome \<times> bool" where
  "reject lg error reason =
     (case logger_error lg of
        Some n \<Rightarrow> (Raised n, True)
      | None \<Rightarrow> (Returned (set_response error reason PNone HTTP_400_BAD_REQUEST), True))"

text \<open>
  \<open>@transaction.atomic()\<close> around a flow: the transaction is rolled back when an exception
  leaves the block or when it was marked for rollback, and committed otherwise.
\<close>

datatype db_effect = Committed | RolledBack

definition transaction_atomic :: "outcome \<times> bool \<Rightarrow> outcome \<times> db_effect" where
  "transaction_atomic r =
     (case r of
        (Raised x, marked) \<Rightarrow> (Raised x, RolledBack)
      | (Returned resp, marked) \<Rightarrow> (Returned resp, if marked then RolledBack else Committed))"

definition HTTP_SUCCESS :: pyval where "HTTP_SUCCESS = PStr ''Success''"

text \<open>
  The texts of the messages that are Chinese in the source are given as short English ones, and
  the exception formatted into a message is left out of it; no property depends on them.
\<close>

definition list_flow ::
  "bool \<Rightarrow> (pyval \<times> pyval) hook \<Rightarrow> response hook \<Rightarrow> (response \<Rightarrow> (pyval \<times> pyval \<times> response) hook)
   \<Rightarrow> outcome \<times> bool"
where
  "list_flow lg pre_process_list perform_list post_process_list =
     (case pre_process_list of
        Inl x \<Rightarrow> (Raised x, False)
      | Inr (error, reason) \<Rightarrow>
          if truthy error then reject lg error reason
          else
            (case perform_list of
               Inl x \<Rightarrow>
                 (case logger_error lg of
                    Some n \<Rightarrow> (Raised n, True)
                  | None \<Rightarrow>
                      (Returned (set_response (PStr ''Failed to get model list'') (PStr ''list failed'')
                                   PNone HTTP_400_BAD_REQUEST), True))
             | Inr response \<Rightarrow>
                 (case post_process_list response of
                    Inl x \<Rightarrow> (Raised x, False)
                  | Inr (error, reason, response) \<Rightarrow>
                      if truthy error then reject lg error reason
                      else (Returned response, False))))"

definition retrieve ::
  "bool \<Rightarrow> (pyval \<times> pyval) hook \<Rightarrow> unit hook \<Rightarrow> (pyval \<times> pyval \<times> response) hook
   \<Rightarrow> (pyval \<times> pyval) hook \<Rightarrow> outcome \<times> bool"
where
  "retrieve lg pre_process_retrieve get_object perform_retrieve post_process_retrieve =
     (case pre_process_retrieve of
        Inl x \<Rightarrow> (Raised x, False)
      | Inr (error, reason) \<Rightarrow>
          if truthy error then reject lg error reason
          else
            (case get_object of
               Inl x \<Rightarrow> (Raised x, False)
             | Inr instance \<Rightarrow>
                 (case perform_retrieve of
                    Inl x \<Rightarrow> (Raised x, False)
                  | Inr (error, reason, response) \<Rightarrow>
                      if truthy error then reject lg error reason
                      else
                        (case post_process_retrieve of
                           Inl x \<Rightarrow> (Raised x, False)
                         | Inr (error, reason) \<Rightarrow>
                             if truthy error then reject lg error reason
                             else (Returned response, False)))))"

text \<open>\<open>create\<close> is the same in \<open>BasicBulkCreateModelMixin\<close> and \<open>BasicCreateModelMixin\<close>.\<close>

definition create ::
  "bool \<Rightarrow> (pyval \<times> pyval) hook \<Rightarrow> (pyval \<times> pyval) hook \<Rightarrow> bool hook \<Rightarrow> unit hook
   \<Rightarrow> (pyval \<times> pyval) hook \<Rightarrow> outcome \<times> bool"
where
  "create lg pre_process_create pre_validate_create serializer_is_valid perform_create
     post_process_create =
     (case pre_process_create of
        Inl x \<Rightarrow> (Raised x, False)
      | Inr (error, reason) \<Rightarrow>
          if truthy error then reject lg error reason
          else
            (case pre_validate_create of
               Inl x \<Rightarrow> (Raised x, False)
             | Inr (error, reason) \<Rightarrow>
                 if truthy error then reject lg error reason
                 else
                   (case serializer_is_valid of
                      Inl x \<Rightarrow> (Raised x, False)
                    | Inr valid \<Rightarrow>
                        if \<not> valid
                        then reject lg (PStr ''serializer is invalid'') (PStr ''serializer errors'')
                        else
                          (case perform_create of
                             Inl x \<Rightarrow>
                               reject lg (PStr ''Failed to create models'') (PStr ''create failed'')
                           | Inr instances \<Rightarrow>
                               (case post_process_create of
                                  Inl x \<Rightarrow> (Raised x, False)
                                | Inr (error, reason) \<Rightarrow>
                                    if truthy error then reject lg error reason
                                    else (Returned (set_response HTTP_SUCCESS (PStr ''created'') PNone
                                                     HTTP_201_CREATED), False))))))"

text \<open>\<open>BasicBulkUpdateModelMixin.update\<close>.\<close>

definition bulk_update ::
  "bool \<Rightarrow> (pyval \<times> pyval) hook \<Rightarrow> (pyval \<times> pyval) hook \<Rightarrow> (pyval \<times> pyval) hook
   \<Rightarrow> (pyval \<times> pyval) hook \<Rightarrow> outcome \<times> bool"
where
  "bulk_update lg pre_process_update validate_update perform_update post_process_update =
     (case pre_process_update of
        Inl x \<Rightarrow> (Raised x, False)
      | Inr (error, reason) \<Rightarrow>
          if truthy error then reject lg error reason
          else
            (case validate_update of
               Inl x \<Rightarrow> (Raised x, False)
             | Inr (error, reason) \<Rightarrow>
                 if truthy error then reject lg error reason
                 else
                   (case perform_update of
                      Inl x \<Rightarrow> reject lg (PStr ''Update failed'') (PStr ''update failed'')
                    | Inr (error, reason) \<Rightarrow>
                        if truthy error then reject lg error reason
                        else
                          (case post_process_update of
                             Inl x \<Rightarrow> (Raised x, False)
                           | Inr (error, reason) \<Rightarrow>
                               if truthy error then reject lg error reason
                               else (Returned (set_response HTTP_SUCCESS (PStr ''bulk update done'')
                                                PNone HTTP_200_OK), False)))))"

text \<open>
  \<open>BasicUpdateModelMixin.update\<close>; \<open>partial\<close> is \<open>request.query_params.get('partial')\<close>.
\<close>

definition update ::
  "bool \<Rightarrow> (pyval \<times> pyval) hook \<Rightarrow> (pyval \<times> pyval) hook \<Rightarrow> unit hook \<Rightarrow> string option
   \<Rightarrow> (pyval \<times> pyval) hook \<Rightarrow> bool hook \<Rightarrow> (pyval \<times> pyval) hook \<Rightarrow> (pyval \<times> pyval) hook
   \<Rightarrow> outcome \<times> bool"
where
  "update lg pre_process_update validate_update get_object partial perform_partial_update
     serializer_is_valid perform_update post_process_update =
     (case pre_process_update of
        Inl x \<Rightarrow> (Raised x, False)
      | Inr (error, reason) \<Rightarrow>
          if truthy error then reject lg error reason
          else
            (case validate_update of
               Inl x \<Rightarrow> (Raised x, False)
             | Inr (error, reason) \<Rightarrow>
                 if truthy error then reject lg error reason
                 else
                   (case get_object of
                      Inl x \<Rightarrow> (Raised x, False)
                    | Inr instance \<Rightarrow>
                        (let after_update =
                               (case post_process_update of
                                  Inl x \<Rightarrow> (Raised x, False)
                                | Inr (error, reason) \<Rightarrow>
                                    if truthy error then reject lg error reason
                                    else (Returned (set_response HTTP_SUCCESS (PStr ''updated'') PNone
                                                     HTTP_200_OK), False))
                         in if partial \<noteq> None then
                              (case perform_partial_update of
                                 Inl x \<Rightarrow> (Raised x, False)
                               | Inr (error, reason) \<Rightarrow>
                                   if truthy error then reject lg error reason else after_update)
                            else
                              (case serializer_is_valid of
                                 Inl x \<Rightarrow> (Raised x, False)
                               | Inr valid \<Rightarrow>
                                   if \<not> valid
                                   then reject lg (PStr ''Serializer validate failed'')
                                          (PStr ''serializer errors'')
                                   else
                                     (case perform_update of
                                        Inl x \<Rightarrow>
                                          reject lg (PStr ''Update failed'') (PStr ''update failed'')
                                      | Inr (error, reason) \<Rightarrow>
                                          if truthy error then reject lg error reason
                                          else after_update))))))"

text \<open>
  The mixin's own \<open>_perform_partial_update\<close>: it catches what setting the fields and saving
  raise, logs, and reports the exception as the error.
\<close>

definition perform_partial_update_default :: "bool \<Rightarrow> unit hook \<Rightarrow> (pyval \<times> pyval) hook" where
  "perform_partial_update_default lg set_and_save =
     (case set_and_save of
        Inl x \<Rightarrow>
          (case logger_error lg of
             Some n \<Rightarrow> Inl n
           | None \<Rightarrow> Inr (PExc x, PStr ''partial update failed''))
      | Inr u \<Rightarrow> Inr (PNone, PStr ''''))"

text \<open>
  \<open>destroy\<close> is the same in \<open>BasicBulkDestroyModelMixin\<close> and \<open>BasicDestroyModelMixin\<close>,
  but for how the instances are fetched.  The branch for an error that \<open>_perform_delete\<close>
  reports does not call \<open>set_rollback\<close>.
\<close>

definition destroy ::
  "bool \<Rightarrow> (pyval \<times> pyval) hook \<Rightarrow> (pyval \<times> pyval) hook \<Rightarrow> unit hook \<Rightarrow> (pyval \<times> pyval) hook
   \<Rightarrow> (pyval \<times> pyval) hook \<Rightarrow> outcome \<times> bool"
where
  "destroy lg pre_process_delete validate_delete get_delete_instances perform_delete
     post_process_delete =
     (case pre_process_delete of
        Inl x \<Rightarrow> (Raised x, False)
      | Inr (error, reason) \<Rightarrow>
          if truthy error then reject lg error reason
          else
            (case validate_delete of
               Inl x \<Rightarrow> (Raised x, False)
             | Inr (error, reason) \<Rightarrow>
                 if truthy error then reject lg error reason
                 else
                   (case get_delete_instances of
                      Inl x \<Rightarrow> (Raised x, False)
                    | Inr insts \<Rightarrow>
                        (case perform_delete of
                           Inl x \<Rightarrow> reject lg (PStr ''Delete failed'') (PStr ''delete failed'')
                         | Inr (error, reason) \<Rightarrow>
                             if truthy error then
                               (case logger_error lg of
                                  Some n \<Rightarrow> (Raised n, False)
                                | None \<Rightarrow>
                                    (Returned (set_response error reason PNone HTTP_400_BAD_REQUEST),
                                     False))
                             else
                               (case post_process_delete of
                                  Inl x \<Rightarrow> (Raised x, False)
                                | Inr (error, reason) \<Rightarrow>
                                    if truthy error then reject lg error reason
                                    else (Returned (set_response HTTP_SUCCESS (PStr ''deleted'') PNone
                                                     HTTP_200_OK), False))))))"

text \<open>
  \<open>extra\<close>, the patch flow of \<open>BasicBulkPatchModelMixin\<close> and \<open>BasicPatchModelMixin\<close>.
  The test of the reported error sits inside the \<open>try\<close>, so an exception of its
  \<open>logger.error\<close> reaches the handler, which logs again.  The handler's response is built
  without a status, so it has the default 200.  The last error branch logs in the bulk mixin
  only (\<open>bulk\<close>).
\<close>

definition extra ::
  "bool \<Rightarrow> bool \<Rightarrow> (pyval \<times> pyval) hook \<Rightarrow> (pyval \<times> pyval) hook \<Rightarrow> unit hook
   \<Rightarrow> (pyval \<times> pyval \<times> response) hook \<Rightarrow> (pyval \<times> pyval) hook \<Rightarrow> outcome \<times> bool"
where
  "extra bulk lg pre_process_patch validate_patch get_instances perform_patch post_process_patch =
     (case pre_process_patch of
        Inl x \<Rightarrow> (Raised x, False)
      | Inr (error, reason) \<Rightarrow>
          if truthy error then reject lg error reason
          else
            (case validate_patch of
               Inl x \<Rightarrow> (Raised x, False)
             | Inr (error, reason) \<Rightarrow>
                 if truthy error then reject lg error reason
                 else
                   (case get_instances of
                      Inl x \<Rightarrow> (Raised x, False)
                    | Inr instances \<Rightarrow>
                        (let handler =
                               (case logger_error lg of
                                  Some n \<Rightarrow> (Raised n, True)
                                | None \<Rightarrow>
                                    (Returned (set_response (PStr ''Failed to patch'')
                                                 (PStr ''patch failed'') PNone HTTP_200_OK), True))
                         in case perform_patch of
                              Inl x \<Rightarrow> handler
                            | Inr (error, reason, response) \<Rightarrow>
                                if truthy error then
                                  (case logger_error lg of
                                     Some n \<Rightarrow> handler
                                   | None \<Rightarrow>
                                       (Returned (set_response error reason PNone
                                                    HTTP_400_BAD_REQUEST), True))
                                else
                                  (case post_process_patch of
                                     Inl x \<Rightarrow> (Raised x, False)
                                   | Inr (error, reason) \<Rightarrow>
                                       if truthy error then
                                         (if bulk then reject lg error reason
                                          else (Returned (set_response error reason PNone
                                                           HTTP_400_BAD_REQUEST), True))
                                       else (Returned response, False))))))"


section \<open>Strings and paths\<close>

text \<open>\<open>s.split(sep)\<close> for a one-character separator; the result is never empty.\<close>

fun split_char :: "char \<Rightarrow> string \<Rightarrow> string list" where
  "split_char sep [] = [[]]"
| "split_char sep (c # cs) =
     (if c = sep then [] # split_char sep cs
      else (case split_char sep cs of [] \<Rightarrow> [[c]] | w # ws \<Rightarrow> (c # w) # ws))"

text \<open>\<open>sep.join(parts)\<close>.\<close>

fun str_join :: "string \<Rightarrow> string list \<Rightarrow> string" where
  "str_join sep [] = []"
| "str_join sep [p] = p"
| "str_join sep (p # q # ps) = p @ sep @ str_join sep (q # ps)"

definition os_sep :: string where "os_sep = ''/''"

text \<open>\<open>os.path.join(a, b)\<close> (POSIX): an absolute second component replaces the first.\<close>

definition os_path_join :: "string \<Rightarrow> string \<Rightarrow> string" where
  "os_path_join a b =
     (if take 1 b = os_sep then b
      else if a = [] \<or> last a = CHR ''/'' then a @ b
      else a @ os_sep @ b)"

text \<open>\<open>os.path.basename\<close> and \<open>os.path.dirname\<close> (POSIX).\<close>

definition basename :: "string \<Rightarrow> string" where
  "basename p = rev (takeWhile (\<lambda>c. c \<noteq> CHR ''/'') (rev p))"

definition dirname :: "string \<Rightarrow> string" where
  "dirname p =
     (let head = rev (dropWhile (\<lambda>c. c \<noteq> CHR ''/'') (rev p))
      in if head \<noteq> [] \<and> \<not> list_all (\<lambda>c. c = CHR ''/'') head
         then rev (dropWhile (\<lambda>c. c = CHR ''/'') (rev head))
         else head)"

section \<open>The file system\<close>

text \<open>
  Text is a list of Unicode code points.  The file system holds its directories and its
  regular files under their canonical path strings; the files are kept in directory order,
  each with the text that reading it as UTF-8 gives.
\<close>

type_synonym ustr = "nat list"

record filesystem =
  dirs :: "string list"
  files :: "(string \<times> ustr) list"

definition is_file :: "filesystem \<Rightarrow> string \<Rightarrow> bool" where
  "is_file f p = (map_of (files f) p \<noteq> None)"

definition is_dir :: "filesystem \<Rightarrow> string \<Rightarrow> bool" where
  "is_dir f p = (p \<in> set (dirs f))"

definition os_path_exists :: "filesystem \<Rightarrow> string \<Rightarrow> bool" where
  "os_path_exists f p = (is_dir f p \<or> is_file f p)"

text \<open>
  \<open>list(os.walk(path))[0]\<close>, of which the code keeps the file names: the names of the regular
  files directly in \<open>path\<close>.  \<open>os.walk\<close> yields nothing for a path that is not a directory,
  and the index raises.
\<close>

definition os_walk_files :: "filesystem \<Rightarrow> string \<Rightarrow> error + string list" where
  "os_walk_files f path =
     (if is_dir f path
      then Inr (map basename (filter (\<lambda>p. dirname p = path) (map fst (files f))))
      else Inl IndexError)"

text \<open>\<open>f.readlines()\<close>: the text cut after each line feed.\<close>

fun readlines :: "ustr \<Rightarrow> ustr list" where
  "readlines [] = []"
| "readlines (c # cs) =
     (if c = 10 then [c] # readlines cs
      else (case readlines cs of [] \<Rightarrow> [[c]] | l # ls \<Rightarrow> (c # l) # ls))"

text \<open>\<open>open(p, "r")\<close> followed by reading the file.\<close>

definition read_file :: "filesystem \<Rightarrow> string \<Rightarrow> error + ustr" where
  "read_file f p =
     (case map_of (files f) p of
        Some t \<Rightarrow> Inr t
      | None \<Rightarrow> if is_dir f p then Inl IsADirectoryError else Inl FileNotFoundError)"

text \<open>Replacing a file's text, or adding the file at the end of the directory order.\<close>

fun put_file :: "(string \<times> ustr) list \<Rightarrow> string \<Rightarrow> ustr \<Rightarrow> (string \<times> ustr) list" where
  "put_file [] p t = [(p, t)]"
| "put_file ((q, u) # fl) p t = (if q = p then (p, t) # fl else (q, u) # put_file fl p t)"

text \<open>
  \<open>open(p, "w")\<close>, the writes and the close, as one step that leaves \<open>t\<close> in the file.
  The directory of \<open>p\<close> must exist (the empty directory name is the working directory).
\<close>

definition write_file :: "filesystem \<Rightarrow> string \<Rightarrow> ustr \<Rightarrow> error + filesystem" where
  "write_file f p t =
     (if is_dir f p then Inl IsADirectoryError
      else if dirname p \<noteq> [] \<and> is_file f (dirname p) then Inl NotADirectoryError
      else if dirname p \<noteq> [] \<and> \<not> is_dir f (dirname p) then Inl FileNotFoundError
      else Inr (f\<lparr>files := put_file (files f) p t\<rparr>))"

text \<open>\<open>os.mkdir(p)\<close>.\<close>

definition os_mkdir :: "filesystem \<Rightarrow> string \<Rightarrow> error + filesystem" where
  "os_mkdir f p =
     (if os_path_exists f p then Inl FileExistsError
      else if dirname p \<noteq> [] \<and> is_file f (dirname p) then Inl NotADirectoryError
      else if dirname p \<noteq> [] \<and> \<not> is_dir f (dirname p) then Inl FileNotFoundError
      else Inr (f\<lparr>dirs := dirs f @ [p]\<rparr>))"

section \<open>JSON, for lists of strings\<close>

text \<open>
  \<open>json.dumps\<close> of a list of strings with the default \<open>ensure_ascii\<close>: printable ASCII is
  copied, the quote, the backslash and five control characters get their short escapes, and
  every other code point is written as \<open>\uXXXX\<close>, beyond the basic plane as a surrogate pair.
\<close>

definition hexdigit :: "nat \<Rightarrow> char" where
  "hexdigit n = (if n < 10 then char_of (48 + n) else char_of (87 + n))"

definition hex4 :: "nat \<Rightarrow> string" where
  "hex4 n = [hexdigit (n div 4096 mod 16), hexdigit (n div 256 mod 16),
             hexdigit (n div 16 mod 16), hexdigit (n mod 16)]"

definition escape_u :: "nat \<Rightarrow> string" where
  "escape_u n = [CHR 0x5C, CHR ''u''] @ hex4 n"

definition escape_char :: "nat \<Rightarrow> string" where
  "escape_char n =
     (if n = 0x5C then [CHR 0x5C, CHR 0x5C]
      else if n = 0x22 then [CHR 0x5C, CHR 0x22]
      else if n = 8 then [CHR 0x5C, CHR ''b'']
      else if n = 12 then [CHR 0x5C, CHR ''f'']
      else if n = 10 then [CHR 0x5C, CHR ''n'']
      else if n = 13 then [CHR 0x5C, CHR ''r'']
      else if n = 9 then [CHR 0x5C, CHR ''t'']
      else if 0x20 \<le> n \<and> n \<le> 0x7E then [char_of n]
      else if n < 0x10000 then escape_u n
      else (let v = n - 0x10000
            in escape_u (0xD800 + v div 1024 mod 1024) @ escape_u (0xDC00 + v mod 1024)))"

definition encode_basestring_ascii :: "ustr \<Rightarrow> string" where
  "encode_basestring_ascii s = [CHR 0x22] @ concat (map escape_char s) @ [CHR 0x22]"

definition json_dumps :: "ustr list \<Rightarrow> string" where
  "json_dumps lines = ''['' @ str_join '', '' (map encode_basestring_ascii lines) @ '']''"

text \<open>
  \<open>json.loads\<close>, for the documents that are arrays of strings; \<open>None\<close> is any other text,
  on which \<open>json.loads\<close> raises or \<open>load\<close> does not find a list of lines.
\<close>

definition hexval :: "char \<Rightarrow> nat option" where
  "hexval c =
     (let n = (of_char c :: nat)
      in if 48 \<le> n \<and> n \<le> 57 then Some (n - 48)
         else if 97 \<le> n \<and> n \<le> 102 then Some (n - 87)
         else if 65 \<le> n \<and> n \<le> 70 then Some (n - 55)
         else None)"

definition unhex4 :: "string \<Rightarrow> nat option" where
  "unhex4 s =
     (case s of
        [a, b, c, d] \<Rightarrow>
          (case (hexval a, hexval b, hexval c, hexval d) of
             (Some x, Some y, Some z, Some w) \<Rightarrow> Some (((x * 16 + y) * 16 + z) * 16 + w)
           | _ \<Rightarrow> None)
      | _ \<Rightarrow> None)"

definition unescape :: "char \<Rightarrow> nat option" where
  "unescape e =
     (if e = CHR 0x22 then Some 0x22
      else if e = CHR 0x5C then Some 0x5C
      else if e = CHR ''/'' then Some 0x2F
      else if e = CHR ''b'' then Some 8
      else if e = CHR ''f'' then Some 12
      else if e = CHR ''n'' then Some 10
      else if e = CHR ''r'' then Some 13
      else if e = CHR ''t'' then Some 9
      else None)"

definition cons_result :: "nat \<Rightarrow> (ustr \<times> string) option \<Rightarrow> (ustr \<times> string) option" where
  "cons_result n r = (case r of None \<Rightarrow> None | Some (t, rest) \<Rightarrow> Some (n # t, rest))"

text \<open>
  The scan of a string body, after its opening quote: the decoded text and the input left
  after the closing quote.
\<close>

fun scanstring :: "string \<Rightarrow> (ustr \<times> string) option" where
  "scanstring [] = None"
| "scanstring (c # cs) =
     (if c = CHR 0x22 then Some ([], cs)
      else if c = CHR 0x5C then
        (case cs of
           [] \<Rightarrow> None
         | e # r \<Rightarrow>
             if e = CHR ''u'' then
               (case unhex4 (take 4 r) of
                  None \<Rightarrow> None
                | Some uni \<Rightarrow>
                    if 0xD800 \<le> uni \<and> uni \<le> 0xDBFF \<and> take 2 (drop 4 r) = [CHR 0x5C, CHR ''u'']
                    then (case unhex4 (take 4 (drop 6 r)) of
                            None \<Rightarrow> None
                          | Some uni2 \<Rightarrow>
                              if 0xDC00 \<le> uni2 \<and> uni2 \<le> 0xDFFF
                              then cons_result
                                     (0x10000 + ((uni - 0xD800) * 1024 + (uni2 - 0xDC00)))
                                     (scanstring (drop 10 r))
                              else cons_result uni (scanstring (drop 4 r)))
                    else cons_result uni (scanstring (drop 4 r)))
             else (case unescape e of
                     None \<Rightarrow> None
                   | Some n \<Rightarrow> cons_result n (scanstring r)))
      else if (of_char c :: nat) < 0x20 then None
      else cons_result (of_char c) (scanstring cs))"

definition json_isspace :: "char \<Rightarrow> bool" where
  "json_isspace c = (c = CHR '' '' \<or> c = CHR 0x09 \<or> c = CHR 0x0A \<or> c = CHR 0x0D)"

definition skip_ws :: "string \<Rightarrow> string" where
  "skip_ws s = dropWhile json_isspace s"

lemma cons_result_rest:
  "cons_result n r = Some (t, rest) \<Longrightarrow> \<exists>t'. r = Some (t', rest)"
  by (cases r) (auto simp: cons_result_def)

lemma scanstring_shorter: "scanstring s = Some (t, rest) \<Longrightarrow> length rest < length s"
proof (induction s arbitrary: t rest rule: scanstring.induct)
  case 1
  then show ?case by simp
next
  case (2 c cs)
  show ?case
  proof (cases "c = CHR 0x22")
    case True
    with "2.prems" show ?thesis by simp
  next
    case quote: False
    show ?thesis
    proof (cases "c = CHR 0x5C")
      case False
      with quote "2.prems" have low: "\<not> (of_char c :: nat) < 0x20"
        and r: "cons_result (of_char c) (scanstring cs) = Some (t, rest)"
        by (auto split: if_splits)
      from cons_result_rest [OF r] obtain t' where "scanstring cs = Some (t', rest)" by blast
      with "2.IH"(5) [OF quote False low] show ?thesis by fastforce
    next
      case bs: True
      show ?thesis
      proof (cases cs)
        case Nil
        with quote bs "2.prems" show ?thesis by simp
      next
        case (Cons e r)
        show ?thesis
        proof (cases "e = CHR ''u''")
          case False
          with quote bs Cons "2.prems" obtain n where n: "unescape e = Some n"
            and res: "cons_result n (scanstring r) = Some (t, rest)"
            by (auto split: option.splits)
          from cons_result_rest [OF res] obtain t' where "scanstring r = Some (t', rest)" by blast
          with "2.IH"(4) [OF quote bs Cons False n] Cons show ?thesis by fastforce
        next
          case u: True
          with quote bs Cons "2.prems" obtain uni where uni: "unhex4 (take 4 r) = Some uni"
            by (auto split: option.splits)
          show ?thesis
          proof (cases "0xD800 \<le> uni \<and> uni \<le> 0xDBFF \<and> take 2 (drop 4 r) = [CHR 0x5C, CHR ''u'']")
            case False
            with quote bs Cons u uni "2.prems"
            have res: "cons_result uni (scanstring (drop 4 r)) = Some (t, rest)"
              by (auto split: option.splits if_splits)
            from cons_result_rest [OF res] obtain t' where "scanstring (drop 4 r) = Some (t', rest)"
              by blast
            with "2.IH"(3) [OF quote bs Cons u uni False] Cons show ?thesis by fastforce
          next
            case pair: True
            with quote bs Cons u uni "2.prems" obtain uni2
              where uni2: "unhex4 (take 4 (drop 6 r)) = Some uni2"
              by (auto split: option.splits)
            show ?thesis
            proof (cases "0xDC00 \<le> uni2 \<and> uni2 \<le> 0xDFFF")
              case True
              with quote bs Cons u uni pair uni2 "2.prems"
              have res: "cons_result (0x10000 + ((uni - 0xD800) * 1024 + (uni2 - 0xDC00)))
                           (scanstring (drop 10 r)) = Some (t, rest)"
                by (auto split: option.splits if_splits)
              from cons_result_rest [OF res] obtain t'
                where "scanstring (drop 10 r) = Some (t', rest)" by blast
              with "2.IH"(1) [OF quote bs Cons u uni pair uni2 True] Cons show ?thesis
                by fastforce
            next
              case False
              with quote bs Cons u uni pair uni2 "2.prems"
              have res: "cons_result uni (scanstring (drop 4 r)) = Some (t, rest)"
                by (auto split: option.splits if_splits)
              from cons_result_rest [OF res] obtain t'
                where "scanstring (drop 4 r) = Some (t', rest)" by blast
              with "2.IH"(2) [OF quote bs Cons u uni pair uni2 False] Cons show ?thesis
                by fastforce
            qed
          qed
        qed
      qed
    qed
  qed
qed

lemma skip_ws_length: "length (skip_ws s) \<le> length s"
  by (simp add: skip_ws_def length_dropWhile_le)

text \<open>
  The array's items, from the first item on: each is a string, followed by a comma or by the
  closing bracket; white space may surround the separators.
\<close>

function parse_items :: "string \<Rightarrow> (ustr list \<times> string) option" where
  "parse_items s =
     (case s of
        [] \<Rightarrow> None
      | c # cs \<Rightarrow>
          if c \<noteq> CHR 0x22 then None
          else (case scanstring cs of
                  None \<Rightarrow> None
                | Some (t, rest) \<Rightarrow>
                    (case skip_ws rest of
                       [] \<Rightarrow> None
                     | d # ds \<Rightarrow>
                         if d = CHR '','' then
                           (case parse_items (skip_ws ds) of
                              None \<Rightarrow> None
                            | Some (ts, rest') \<Rightarrow> Some (t # ts, rest'))
                         else if d = CHR '']'' then Some ([t], ds)
                         else None)))"
  by pat_completeness auto
termination
proof (relation "measure length", goal_cases)
  case 1
  show ?case by simp
next
  case (2 s c cs x2 t rest d ds)
  have "length (skip_ws ds) \<le> length ds" by (rule skip_ws_length)
  moreover have "length ds < length (skip_ws rest)" using 2 by simp
  moreover have "length (skip_ws rest) \<le> length rest" by (rule skip_ws_length)
  moreover have "length rest < length cs"
  proof -
    from 2 have "scanstring cs = Some (t, rest)" by simp
    then show ?thesis by (rule scanstring_shorter)
  qed
  ultimately show ?case using 2 by simp
qed

definition json_loads :: "string \<Rightarrow> ustr list option" where
  "json_loads s =
     (case skip_ws s of
        [] \<Rightarrow> None
      | c # cs \<Rightarrow>
          if c \<noteq> CHR ''['' then None
          else (case skip_ws cs of
                  [] \<Rightarrow> None
                | d # ds \<Rightarrow>
                    if d = CHR '']'' then (if skip_ws ds = [] then Some [] else None)
                    else (case parse_items (d # ds) of
                            None \<Rightarrow> None
                          | Some (ts, rest) \<Rightarrow> if skip_ws rest = [] then Some ts else None)))"

section \<open>The migration store\<close>

text \<open>
  A row of \<open>MigrationsHistory\<close>.  The inherited bookkeeping columns (\<open>is_delete\<close>,
  \<open>desc\<close>, \<open>ctime\<close>, \<open>mtime\<close>) play no part in the command and are left out.  The table is
  the list of its rows in insertion order.
\<close>

record migrations_history =
  app_name :: string
  file_name :: string
  file_content :: string

text \<open>
  \<open>MigrationsHistory.objects.get_or_create(app_name=a, file_name=n, defaults={"file_content": c})\<close>:
  the table afterwards and whether a row was created.
\<close>

definition get_or_create ::
  "migrations_history list \<Rightarrow> string \<Rightarrow> string \<Rightarrow> string \<Rightarrow> error + (migrations_history list \<times> bool)"
where
  "get_or_create table a n c =
     (case filter (\<lambda>r. app_name r = a \<and> file_name r = n) table of
        [] \<Rightarrow> Inr (table @ [\<lparr>app_name = a, file_name = n, file_content = c\<rparr>], True)
      | [r] \<Rightarrow> Inr (table, False)
      | r # r' # rs \<Rightarrow> Inl MultipleObjectsReturned)"

section \<open>The syncmigrate command\<close>

record settings =
  BASE_DIR :: string
  INSTALLED_APPS :: "string list"

text \<open>What the command prints; the texts themselves are not modelled.\<close>

datatype message =
    MsgSaved string string
  | MsgIgnored string string
  | MsgLoaded string
  | MsgInitial

text \<open>Everything the command can touch.\<close>

record world =
  fs :: filesystem
  db :: "migrations_history list"
  stdout :: "message list"

definition migrations_dir_name :: string where "migrations_dir_name = ''migrations''"

text \<open>\<open>d[key] = value\<close> on the dict of migrations directories.\<close>

fun dict_set :: "(string \<times> string) list \<Rightarrow> string \<Rightarrow> string \<Rightarrow> (string \<times> string) list" where
  "dict_set [] k v = [(k, v)]"
| "dict_set ((k', v') # d) k v = (if k' = k then (k, v) # d else (k', v') # dict_set d k v)"

fun app_migrations_dirs ::
  "settings \<Rightarrow> filesystem \<Rightarrow> string list \<Rightarrow> (string \<times> string) list \<Rightarrow> (string \<times> string) list"
where
  "app_migrations_dirs env f [] app_migrations_dir = app_migrations_dir"
| "app_migrations_dirs env f (app # apps) app_migrations_dir =
     (let app_path = str_join os_sep (split_char CHR ''.'' app);
          abs_app_path = os_path_join (BASE_DIR env) app_path
      in if os_path_exists f abs_app_path
         then app_migrations_dirs env f apps
                (dict_set app_migrations_dir app_path (os_path_join abs_app_path migrations_dir_name))
         else app_migrations_dirs env f apps app_migrations_dir)"

definition get_app_migrations_dir :: "settings \<Rightarrow> filesystem \<Rightarrow> (string \<times> string) list" where
  "get_app_migrations_dir env f = app_migrations_dirs env f (INSTALLED_APPS env) []"

definition get_app_migrations_file :: "filesystem \<Rightarrow> string \<Rightarrow> error + string list" where
  "get_app_migrations_file f path =
     (if os_path_exists f path then
        (case os_walk_files f path of
           Inl e \<Rightarrow> Inl e
         | Inr file_list \<Rightarrow>
             if ''__init__.py'' \<notin> set file_list then Inl ValueError
             else Inr (map (os_path_join path)
                        (filter (\<lambda>file. \<not> (file = ''__init__.py''
                                          \<or> last (split_char CHR ''.'' file) = ''pyc''))
                           (remove1 ''__init__.py'' file_list))))
      else Inr [])"

text \<open>
  The inner loop of \<open>save\<close> over the files of one application, and the outer loop over the
  applications.  An exception ends the run and leaves what was done so far.
\<close>

fun save_files :: "string \<Rightarrow> string list \<Rightarrow> world \<Rightarrow> world \<times> error option" where
  "save_files app [] w = (w, None)"
| "save_files app (file # file_list) w =
     (case read_file (fs w) file of
        Inl e \<Rightarrow> (w, Some e)
      | Inr t \<Rightarrow>
          (case get_or_create (db w) app (hd (split_char CHR ''.'' file)) (json_dumps (readlines t)) of
             Inl e \<Rightarrow> (w, Some e)
           | Inr (table, created) \<Rightarrow>
               save_files app file_list
                 (w\<lparr>db := table,
                    stdout := stdout w @ [if created then MsgSaved app file else MsgIgnored app file]\<rparr>)))"

fun save_apps :: "(string \<times> string) list \<Rightarrow> world \<Rightarrow> world \<times> error option" where
  "save_apps [] w = (w, None)"
| "save_apps ((app, path) # rest) w =
     (case get_app_migrations_file (fs w) path of
        Inl e \<Rightarrow> (w, Some e)
      | Inr file_list \<Rightarrow>
          (case save_files app file_list w of
             (w', Some e) \<Rightarrow> (w', Some e)
           | (w', None) \<Rightarrow> save_apps rest w'))"

definition save :: "settings \<Rightarrow> world \<Rightarrow> world \<times> error option" where
  "save env w = save_apps (get_app_migrations_dir env (fs w)) w"

definition coding_header :: ustr where
  "coding_header = map of_char ''# coding:utf-8'' @ [10]"

text \<open>
  The loop of \<open>load\<close> over the rows of one application.  The file is opened and the header
  written before the row's content is decoded, so a content that does not decode leaves a
  file with the header only.
\<close>

fun load_rows :: "string \<Rightarrow> migrations_history list \<Rightarrow> filesystem \<Rightarrow> filesystem \<times> error option" where
  "load_rows path [] f = (f, None)"
| "load_rows path (migrations # rest) f =
     (let target = os_path_join path (file_name migrations @ ''.py'')
      in case write_file f target coding_header of
           Inl e \<Rightarrow> (f, Some e)
         | Inr f' \<Rightarrow>
             (case json_loads (file_content migrations) of
                None \<Rightarrow> (f', Some JSONDecodeError)
              | Some lines \<Rightarrow>
                  (case write_file f target (coding_header @ concat lines) of
                     Inl e \<Rightarrow> (f', Some e)
                   | Inr f'' \<Rightarrow> load_rows path rest f'')))"

fun load_apps :: "(string \<times> string) list \<Rightarrow> world \<Rightarrow> world \<times> error option" where
  "load_apps [] w = (w, None)"
| "load_apps ((app, path) # rest) w =
     (case (if os_path_exists (fs w) path = False then os_mkdir (fs w) path else Inr (fs w)) of
        Inl e \<Rightarrow> (w, Some e)
      | Inr f \<Rightarrow>
          (case write_file f (os_path_join path ''__init__.py'') [] of
             Inl e \<Rightarrow> (w\<lparr>fs := f\<rparr>, Some e)
           | Inr f' \<Rightarrow>
               (case load_rows path (filter (\<lambda>m. app_name m = app) (db w)) f' of
                  (f'', Some e) \<Rightarrow> (w\<lparr>fs := f''\<rparr>, Some e)
                | (f'', None) \<Rightarrow>
                    load_apps rest (w\<lparr>fs := f'', stdout := stdout w @ [MsgLoaded app]\<rparr>))))"

definition load :: "settings \<Rightarrow> world \<Rightarrow> world \<times> error option" where
  "load env w = load_apps (get_app_migrations_dir env (fs w)) w"

definition initial :: "world \<Rightarrow> world \<times> error option" where
  "initial w = (w\<lparr>stdout := stdout w @ [MsgInitial]\<rparr>, None)"

text \<open>
  \<open>SingleArgBaseCommand.handle\<close>: the argument parser admits the three actions of
  \<open>action_choice\<close> only, and \<open>getattr\<close> picks the method of that name.
\<close>

datatype action = Save | Load | Initial

fun handle :: "settings \<Rightarrow> action \<Rightarrow> world \<Rightarrow> world \<times> error option" where
  "handle env Save w = save env w"
| "handle env Load w = load env w"
| "handle env Initial w = initial w"

section \<open>Notions for stating the properties\<close>

text \<open>
  A reporting hook reports an error when it returns a truthy \<open>error\<close>, and passes when it
  returns one that is not.
\<close>

definition reports :: "(pyval \<times> 'a) hook \<Rightarrow> bool" where
  "reports h = (case h of Inl x \<Rightarrow> False | Inr (error, rest) \<Rightarrow> truthy error)"

definition passes :: "(pyval \<times> 'a) hook \<Rightarrow> bool" where
  "passes h = (case h of Inl x \<Rightarrow> False | Inr (error, rest) \<Rightarrow> \<not> truthy error)"

text \<open>The flow answers with status 400 and its transaction is rolled back.\<close>

definition answers_400 :: "outcome \<times> db_effect \<Rightarrow> bool" where
  "answers_400 r =
     (case r of
        (Returned resp, eff) \<Rightarrow> status resp = HTTP_400_BAD_REQUEST \<and> eff = RolledBack
      | (Raised x, eff) \<Rightarrow> False)"

text \<open>The rows of the table that carry a given key.\<close>

definition matching :: "migrations_history list \<Rightarrow> string \<Rightarrow> string \<Rightarrow> migrations_history list" where
  "matching table a n = filter (\<lambda>r. app_name r = a \<and> file_name r = n) table"

text \<open>
  How the table may change during a save: the rows of a key that has some stay as they are, and
  a key without rows gets at most one.
\<close>

definition grows :: "migrations_history list \<Rightarrow> migrations_history list \<Rightarrow> bool" where
  "grows t1 t2 = (\<forall>a n. if matching t1 a n = [] then length (matching t2 a n) \<le> 1
                        else matching t2 a n = matching t1 a n)"

text \<open>The path of an application, and the migrations directory that belongs to it.\<close>

definition app_path_of :: "string \<Rightarrow> string" where
  "app_path_of app = str_join os_sep (split_char CHR ''.'' app)"

definition migrations_path :: "settings \<Rightarrow> string \<Rightarrow> string" where
  "migrations_path env app_path =
     os_path_join (os_path_join (BASE_DIR env) app_path) migrations_dir_name"


definition marker_file :: "string \<Rightarrow> string" where
  "marker_file path = os_path_join path ''__init__.py''"



section \<open>Words of the specification\<close>


section \<open>Sample data\<close>

definition mk_request :: "(string \<times> string) list \<Rightarrow> request" where
  "mk_request qs = \<lparr>query_params = qs, META = Map.empty, user = PNone\<rparr>"

definition ok_response :: response where
  "ok_response = \<lparr>data = PStr ''handled'', status = HTTP_200_OK\<rparr>"

definition sample_view :: "bool \<Rightarrow> bool \<Rightarrow> auth_view" where
  "sample_view is_auth has_perm =
     \<lparr>check_authentication = (\<lambda>r. (is_auth, PStr ''alice'')),
      check_permission = (\<lambda>r. has_perm),
      super_dispatch = (\<lambda>r. ok_response)\<rparr>"

definition sample_env :: settings where
  "sample_env = \<lparr>BASE_DIR = ''/srv'', INSTALLED_APPS = [''app'', ''django.contrib.admin'']\<rparr>"

definition sample_fs :: filesystem where
  "sample_fs =
     \<lparr>dirs = [''/srv'', ''/srv/app'', ''/srv/app/migrations''],
      files = [(''/srv/app/migrations/__init__.py'', []),
               (''/srv/app/migrations/0001_initial.py'', [120, 10, 121])]\<rparr>"

definition sample_world :: world where
  "sample_world = \<lparr>fs = sample_fs, db = [], stdout = []\<rparr>"

definition stale_row :: migrations_history where
  "stale_row =
     \<lparr>app_name = ''app'', file_name = ''/srv/app/migrations/0001_initial'', file_content = ''[]''\<rparr>"





definition hook_ok :: "(pyval \<times> pyval) hook" where
  "hook_ok = Inr (PNone, PStr [])"

definition hook_reports :: "(pyval \<times> pyval) hook" where
  "hook_reports = Inr (PStr ''busy'', PStr ''in use'')"

definition fs_pyc :: filesystem where
  "fs_pyc = \<lparr>dirs = [''/m''], files = [(''/m/__init__.py'', []), (''/m/pyc'', [120])]\<rparr>"

section \<open>The JSON codec round-trips\<close>

declare parse_items.simps [simp del]









lemma skip_ws_quote [simp]: "skip_ws (CHR 0x22 # s) = CHR 0x22 # s"
  and skip_ws_bracket [simp]: "skip_ws (CHR '']'' # s) = CHR '']'' # s"
  and skip_ws_comma [simp]: "skip_ws (CHR '','' # s) = CHR '','' # s"
  and skip_ws_space [simp]: "skip_ws (CHR '' '' # s) = skip_ws s"
  and skip_ws_nil [simp]: "skip_ws [] = []"
  by (simp_all add: skip_ws_def json_isspace_def)





section \<open>The save loops\<close>

lemma grows_refl: "grows t t"
  by (simp add: grows_def)

lemma grows_trans:
  assumes "grows t1 t2" "grows t2 t3"
  shows "grows t1 t3"
  unfolding grows_def
proof (intro allI)
  fix a n
  from assms have 12: "if matching t1 a n = [] then length (matching t2 a n) \<le> 1
                        else matching t2 a n = matching t1 a n"
    and 23: "if matching t2 a n = [] then length (matching t3 a n) \<le> 1
                        else matching t3 a n = matching t2 a n"
    unfolding grows_def by blast+
  show "if matching t1 a n = [] then length (matching t3 a n) \<le> 1
        else matching t3 a n = matching t1 a n"
  proof (cases "matching t1 a n = []")
    case True
    with 12 have "length (matching t2 a n) \<le> 1" by simp
    with 23 have "length (matching t3 a n) \<le> 1" by (cases "matching t2 a n = []") simp_all
    with True show ?thesis by simp
  next
    case False
    with 12 have "matching t2 a n = matching t1 a n" by simp
    with False 23 show ?thesis by simp
  qed
qed

lemma grows_kept:
  assumes "grows t1 t2" "matching t1 a n \<noteq> []"
  shows "matching t2 a n = matching t1 a n"
proof -
  from assms(1) have "if matching t1 a n = [] then length (matching t2 a n) \<le> 1
                      else matching t2 a n = matching t1 a n"
    unfolding grows_def by blast
  with assms(2) show ?thesis by simp
qed

lemma grows_one:
  assumes "grows t1 t2" "length (matching t1 a n) = 1"
  shows "length (matching t2 a n) = 1"
proof -
  from assms(2) have "matching t1 a n \<noteq> []" by auto
  with assms(1) have "matching t2 a n = matching t1 a n" by (rule grows_kept)
  with assms(2) show ?thesis by simp
qed

lemma grows_many:
  assumes "grows t1 t2" "matching t1 a n = r # r' # rs"
  shows "matching t2 a n = r # r' # rs"
proof -
  from assms(2) have "matching t1 a n \<noteq> []" by auto
  with assms(1) have "matching t2 a n = matching t1 a n" by (rule grows_kept)
  with assms(2) show ?thesis by simp
qed

lemma get_or_create_cases:
  "get_or_create table a n c =
     (case matching table a n of
        [] \<Rightarrow> Inr (table @ [\<lparr>app_name = a, file_name = n, file_content = c\<rparr>], True)
      | [r] \<Rightarrow> Inr (table, False)
      | r # r' # rs \<Rightarrow> Inl MultipleObjectsReturned)"
  by (simp add: get_or_create_def matching_def)

lemma matching_append: "matching (t @ u) a n = matching t a n @ matching u a n"
  by (simp add: matching_def)

lemma matching_single:
  "matching [\<lparr>app_name = a, file_name = n, file_content = c\<rparr>] a' n' =
     (if a = a' \<and> n = n' then [\<lparr>app_name = a, file_name = n, file_content = c\<rparr>] else [])"
  by (simp add: matching_def)

lemma get_or_create_grows:
  "get_or_create table a n c = Inr (table', created) \<Longrightarrow> grows table table'"
  by (auto simp: get_or_create_cases grows_def matching_append matching_single
      split: list.splits if_splits)

lemma get_or_create_prefix:
  "get_or_create table a n c = Inr (table', created) \<Longrightarrow> take (length table) table' = table"
  by (auto simp: get_or_create_cases split: list.splits)

lemma get_or_create_found:
  "get_or_create table a n c = Inr (table', created) \<Longrightarrow> length (matching table' a n) = 1"
  by (auto simp: get_or_create_cases matching_append matching_single split: list.splits)

lemma get_or_create_stable:
  "length (matching table a n) = 1 \<Longrightarrow> get_or_create table a n c = Inr (table, False)"
  by (cases "matching table a n") (auto simp: get_or_create_cases split: list.splits)

lemma get_or_create_error:
  "get_or_create table a n c = Inl e \<Longrightarrow> grows table table2 \<Longrightarrow>
   get_or_create table2 a n c = Inl e"
proof -
  assume e: "get_or_create table a n c = Inl e" and g: "grows table table2"
  from e obtain r r' rs where m: "matching table a n = r # r' # rs" and "e = MultipleObjectsReturned"
    by (auto simp: get_or_create_cases split: list.splits)
  with g have "matching table2 a n = r # r' # rs" by (simp add: grows_many)
  then show ?thesis using \<open>e = MultipleObjectsReturned\<close> by (simp add: get_or_create_cases)
qed

lemma save_files_read_error:
  "read_file (fs w) f0 = Inl e \<Longrightarrow> save_files app (f0 # fl) w = (w, Some e)"
  by simp

lemma save_files_store_error:
  "read_file (fs w) f0 = Inr t \<Longrightarrow>
   get_or_create (db w) app (hd (split_char CHR ''.'' f0)) (json_dumps (readlines t)) = Inl e \<Longrightarrow>
   save_files app (f0 # fl) w = (w, Some e)"
  by simp

lemma save_files_step:
  "read_file (fs w) f0 = Inr t \<Longrightarrow>
   get_or_create (db w) app (hd (split_char CHR ''.'' f0)) (json_dumps (readlines t))
     = Inr (table, created) \<Longrightarrow>
   save_files app (f0 # fl) w =
     save_files app fl
       (w\<lparr>db := table,
          stdout := stdout w @ [if created then MsgSaved app f0 else MsgIgnored app f0]\<rparr>)"
  by simp

lemma save_files_fs: "fs (fst (save_files app fl w)) = fs w"
proof (induction fl arbitrary: w)
  case Nil
  then show ?case by simp
next
  case (Cons f0 fl)
  show ?case
  proof (cases "read_file (fs w) f0")
    case (Inl e)
    then show ?thesis by (simp only: save_files_read_error fst_conv)
  next
    case (Inr t)
    show ?thesis
    proof (cases "get_or_create (db w) app (hd (split_char CHR ''.'' f0)) (json_dumps (readlines t))")
      case (Inl e)
      with Inr show ?thesis by (simp only: save_files_store_error fst_conv)
    next
      case r: (Inr res)
      obtain table created where res: "res = (table, created)" by (cases res)
      show ?thesis
        unfolding save_files_step [OF Inr r [unfolded res]] Cons.IH by simp
    qed
  qed
qed

lemma save_files_grows: "grows (db w) (db (fst (save_files app fl w)))"
proof (induction fl arbitrary: w)
  case Nil
  then show ?case by (simp add: grows_refl)
next
  case (Cons f0 fl)
  show ?case
  proof (cases "read_file (fs w) f0")
    case (Inl e)
    then show ?thesis by (simp only: save_files_read_error fst_conv grows_refl)
  next
    case (Inr t)
    show ?thesis
    proof (cases "get_or_create (db w) app (hd (split_char CHR ''.'' f0)) (json_dumps (readlines t))")
      case (Inl e)
      with Inr show ?thesis by (simp only: save_files_store_error fst_conv grows_refl)
    next
      case r: (Inr res)
      obtain table created where res: "res = (table, created)" by (cases res)
      let ?w1 = "w\<lparr>db := table,
          stdout := stdout w @ [if created then MsgSaved app f0 else MsgIgnored app f0]\<rparr>"
      have "grows (db w) table" using get_or_create_grows [OF r [unfolded res]] .
      moreover have "grows table (db (fst (save_files app fl ?w1)))"
        using Cons.IH [of ?w1] by simp
      ultimately have "grows (db w) (db (fst (save_files app fl ?w1)))" by (rule grows_trans)
      then show ?thesis unfolding save_files_step [OF Inr r [unfolded res]] .
    qed
  qed
qed

lemma take_take_prefix:
  assumes "take (length a) b = a" "take (length b) c = b"
  shows "take (length a) c = a"
proof -
  have "length (take (length a) b) = length a" using assms(1) by simp
  then have le: "length a \<le> length b" by simp
  have "take (length a) c = take (length a) (take (length b) c)" using le by (simp add: min_def)
  then show ?thesis using assms by simp
qed

lemma save_files_prefix:
  "take (length (db w)) (db (fst (save_files app fl w))) = db w"
proof (induction fl arbitrary: w)
  case Nil
  then show ?case by simp
next
  case (Cons f0 fl)
  show ?case
  proof (cases "read_file (fs w) f0")
    case (Inl e)
    then show ?thesis by (simp only: save_files_read_error fst_conv take_all order_refl)
  next
    case (Inr t)
    show ?thesis
    proof (cases "get_or_create (db w) app (hd (split_char CHR ''.'' f0)) (json_dumps (readlines t))")
      case (Inl e)
      with Inr show ?thesis by (simp only: save_files_store_error fst_conv take_all order_refl)
    next
      case r: (Inr res)
      obtain table created where res: "res = (table, created)" by (cases res)
      let ?w1 = "w\<lparr>db := table,
          stdout := stdout w @ [if created then MsgSaved app f0 else MsgIgnored app f0]\<rparr>"
      have p1: "take (length (db w)) table = db w" using get_or_create_prefix [OF r [unfolded res]] .
      have p2: "take (length table) (db (fst (save_files app fl ?w1))) = table"
        using Cons.IH [of ?w1] by simp
      have "take (length (db w)) (db (fst (save_files app fl ?w1))) = db w"
        using p1 p2 by (rule take_take_prefix)
      then show ?thesis unfolding save_files_step [OF Inr r [unfolded res]] .
    qed
  qed
qed

lemma save_files_stable:
  assumes "save_files app fl w = (w', e)" "grows (db w') (db w2)" "fs w2 = fs w"
  shows "db (fst (save_files app fl w2)) = db w2 \<and> snd (save_files app fl w2) = e"
  using assms
proof (induction fl arbitrary: w w2)
  case Nil
  then show ?case by simp
next
  case (Cons f0 fl)
  show ?case
  proof (cases "read_file (fs w) f0")
    case (Inl e')
    from Cons.prems(1) have "e = Some e'" unfolding save_files_read_error [OF Inl] by simp
    moreover from Inl Cons.prems(3) have "read_file (fs w2) f0 = Inl e'" by simp
    ultimately show ?thesis by (simp only: save_files_read_error fst_conv snd_conv simp_thms)
  next
    case (Inr t)
    let ?n = "hd (split_char CHR ''.'' f0)" and ?c = "json_dumps (readlines t)"
    from Inr Cons.prems(3) have rd2: "read_file (fs w2) f0 = Inr t" by simp
    show ?thesis
    proof (cases "get_or_create (db w) app ?n ?c")
      case (Inl e')
      from Cons.prems(1) have we: "w' = w" "e = Some e'"
        unfolding save_files_store_error [OF Inr Inl] by simp_all
      from Cons.prems(2) we have "grows (db w) (db w2)" by simp
      with Inl have "get_or_create (db w2) app ?n ?c = Inl e'" by (rule get_or_create_error)
      then show ?thesis using we(2)
        by (simp only: save_files_store_error [OF rd2] fst_conv snd_conv simp_thms)
    next
      case r: (Inr res)
      obtain table created where res: "res = (table, created)" by (cases res)
      let ?w1 = "w\<lparr>db := table,
          stdout := stdout w @ [if created then MsgSaved app f0 else MsgIgnored app f0]\<rparr>"
      have run: "save_files app fl ?w1 = (w', e)"
        using Cons.prems(1) unfolding save_files_step [OF Inr r [unfolded res]] .
      have one: "length (matching table app ?n) = 1" using get_or_create_found [OF r [unfolded res]] .
      have "grows table (db w')" using save_files_grows [of ?w1 app fl] run by simp
      then have "length (matching (db w') app ?n) = 1" using one by (rule grows_one)
      with Cons.prems(2) have "length (matching (db w2) app ?n) = 1" by (rule grows_one)
      then have g2: "get_or_create (db w2) app ?n ?c = Inr (db w2, False)"
        by (rule get_or_create_stable)
      let ?w3 = "w2\<lparr>db := db w2,
          stdout := stdout w2 @ [if False then MsgSaved app f0 else MsgIgnored app f0]\<rparr>"
      have "db (fst (save_files app fl ?w3)) = db ?w3 \<and> snd (save_files app fl ?w3) = e"
      proof (rule Cons.IH [OF run])
        show "grows (db w') (db ?w3)" using Cons.prems(2) by simp
        show "fs ?w3 = fs ?w1" using Cons.prems(3) by simp
      qed
      then show ?thesis unfolding save_files_step [OF rd2 g2] by simp
    qed
  qed
qed

lemma save_apps_listing_error:
  "get_app_migrations_file (fs w) path = Inl e \<Longrightarrow> save_apps ((app, path) # ds) w = (w, Some e)"
  by simp

lemma save_apps_files_error:
  "get_app_migrations_file (fs w) path = Inr fl \<Longrightarrow> save_files app fl w = (w1, Some e) \<Longrightarrow>
   save_apps ((app, path) # ds) w = (w1, Some e)"
  by simp

lemma save_apps_step:
  "get_app_migrations_file (fs w) path = Inr fl \<Longrightarrow> save_files app fl w = (w1, None) \<Longrightarrow>
   save_apps ((app, path) # ds) w = save_apps ds w1"
  by simp

lemma save_apps_fs: "fs (fst (save_apps ds w)) = fs w"
proof (induction ds arbitrary: w)
  case Nil
  then show ?case by simp
next
  case (Cons d ds)
  obtain app path where d: "d = (app, path)" by (cases d)
  show ?case
  proof (cases "get_app_migrations_file (fs w) path")
    case (Inl e)
    then show ?thesis unfolding d by (simp only: save_apps_listing_error fst_conv)
  next
    case (Inr fl)
    obtain w1 e1 where r: "save_files app fl w = (w1, e1)" by (cases "save_files app fl w")
    then have f1: "fs w1 = fs w" using save_files_fs [of app fl w] by simp
    show ?thesis
    proof (cases e1)
      case None
      show ?thesis unfolding d save_apps_step [OF Inr r [unfolded None]] Cons.IH f1 ..
    next
      case (Some e)
      show ?thesis unfolding d save_apps_files_error [OF Inr r [unfolded Some]] using f1 by simp
    qed
  qed
qed

lemma save_apps_grows: "grows (db w) (db (fst (save_apps ds w)))"
proof (induction ds arbitrary: w)
  case Nil
  then show ?case by (simp add: grows_refl)
next
  case (Cons d ds)
  obtain app path where d: "d = (app, path)" by (cases d)
  show ?case
  proof (cases "get_app_migrations_file (fs w) path")
    case (Inl e)
    then show ?thesis unfolding d by (simp only: save_apps_listing_error fst_conv grows_refl)
  next
    case (Inr fl)
    obtain w1 e1 where r: "save_files app fl w = (w1, e1)" by (cases "save_files app fl w")
    then have g1: "grows (db w) (db w1)" using save_files_grows [of w app fl] by simp
    show ?thesis
    proof (cases e1)
      case None
      have "grows (db w) (db (fst (save_apps ds w1)))" using g1 Cons.IH by (rule grows_trans)
      then show ?thesis unfolding d save_apps_step [OF Inr r [unfolded None]] .
    next
      case (Some e)
      show ?thesis unfolding d save_apps_files_error [OF Inr r [unfolded Some]] using g1 by simp
    qed
  qed
qed

lemma save_apps_prefix: "take (length (db w)) (db (fst (save_apps ds w))) = db w"
proof (induction ds arbitrary: w)
  case Nil
  then show ?case by simp
next
  case (Cons d ds)
  obtain app path where d: "d = (app, path)" by (cases d)
  show ?case
  proof (cases "get_app_migrations_file (fs w) path")
    case (Inl e)
    then show ?thesis unfolding d by (simp only: save_apps_listing_error fst_conv take_all order_refl)
  next
    case (Inr fl)
    obtain w1 e1 where r: "save_files app fl w = (w1, e1)" by (cases "save_files app fl w")
    then have p1: "take (length (db w)) (db w1) = db w" using save_files_prefix [of w app fl] by simp
    show ?thesis
    proof (cases e1)
      case None
      have "take (length (db w)) (db (fst (save_apps ds w1))) = db w"
        using p1 Cons.IH by (rule take_take_prefix)
      then show ?thesis unfolding d save_apps_step [OF Inr r [unfolded None]] .
    next
      case (Some e)
      show ?thesis unfolding d save_apps_files_error [OF Inr r [unfolded Some]] using p1 by simp
    qed
  qed
qed

lemma save_apps_stable:
  assumes "save_apps ds w = (w', e)" "grows (db w') (db w2)" "fs w2 = fs w"
  shows "db (fst (save_apps ds w2)) = db w2 \<and> snd (save_apps ds w2) = e"
  using assms
proof (induction ds arbitrary: w w2)
  case Nil
  then show ?case by simp
next
  case (Cons d ds)
  obtain app path where d: "d = (app, path)" by (cases d)
  show ?case
  proof (cases "get_app_migrations_file (fs w) path")
    case (Inl e')
    from Cons.prems(1) have "e = Some e'" unfolding d save_apps_listing_error [OF Inl] by simp
    moreover from Inl Cons.prems(3) have "get_app_migrations_file (fs w2) path = Inl e'" by simp
    ultimately show ?thesis unfolding d
      by (simp only: save_apps_listing_error fst_conv snd_conv simp_thms)
  next
    case (Inr fl)
    from Inr Cons.prems(3) have l2: "get_app_migrations_file (fs w2) path = Inr fl" by simp
    obtain w1 e1 where r: "save_files app fl w = (w1, e1)" by (cases "save_files app fl w")
    have f1: "fs w1 = fs w" using save_files_fs [of app fl w] r by simp
    show ?thesis
    proof (cases e1)
      case (Some e')
      from Cons.prems(1) have we: "w' = w1" "e = Some e'"
        unfolding d save_apps_files_error [OF Inr r [unfolded Some]] by simp_all
      have st: "db (fst (save_files app fl w2)) = db w2 \<and> snd (save_files app fl w2) = Some e'"
        using save_files_stable [OF r [unfolded Some]] Cons.prems(2,3) we by simp
      obtain w3 where r2: "save_files app fl w2 = (w3, Some e')" and "db w3 = db w2"
        using st by (cases "save_files app fl w2") auto
      then show ?thesis unfolding d save_apps_files_error [OF l2 r2] using we by simp
    next
      case None
      have run: "save_apps ds w1 = (w', e)"
        using Cons.prems(1) unfolding d save_apps_step [OF Inr r [unfolded None]] .
      have "grows (db w1) (db w')" using save_apps_grows [of w1 ds] run by simp
      then have g: "grows (db w1) (db w2)" using Cons.prems(2) by (rule grows_trans)
      have st: "db (fst (save_files app fl w2)) = db w2 \<and> snd (save_files app fl w2) = None"
        using save_files_stable [OF r [unfolded None] g Cons.prems(3)] .
      obtain w3 where r2: "save_files app fl w2 = (w3, None)" and d3: "db w3 = db w2"
        using st by (cases "save_files app fl w2") auto
      have f3: "fs w3 = fs w1" using save_files_fs [of app fl w2] r2 f1 Cons.prems(3) by simp
      have "db (fst (save_apps ds w3)) = db w3 \<and> snd (save_apps ds w3) = e"
      proof (rule Cons.IH [OF run])
        show "grows (db w') (db w3)" using Cons.prems(2) d3 by simp
        show "fs w3 = fs w1" by (rule f3)
      qed
      then show ?thesis unfolding d save_apps_step [OF l2 r2] using d3 by simp
    qed
  qed
qed

lemma get_or_create_other_app:
  "get_or_create table app n c = Inr (table', created) \<Longrightarrow> a \<noteq> app \<Longrightarrow>
   matching table' a n' = matching table a n'"
  by (auto simp: get_or_create_cases matching_append matching_single split: list.splits)

lemma get_or_create_other_name:
  "get_or_create table app n c = Inr (table', created) \<Longrightarrow> n' \<noteq> n \<Longrightarrow>
   matching table' a n' = matching table a n'"
  by (auto simp: get_or_create_cases matching_append matching_single split: list.splits)

lemma get_or_create_fresh:
  "get_or_create table app n c = Inr (table', created) \<Longrightarrow> matching table app n = [] \<Longrightarrow>
   matching table' app n = [\<lparr>app_name = app, file_name = n, file_content = c\<rparr>]"
  by (auto simp: get_or_create_cases matching_append matching_single split: list.splits)

lemma save_files_other_app:
  "a \<noteq> app \<Longrightarrow> matching (db (fst (save_files app fl w))) a n = matching (db w) a n"
proof (induction fl arbitrary: w)
  case Nil
  then show ?case by simp
next
  case (Cons f0 fl)
  show ?case
  proof (cases "read_file (fs w) f0")
    case (Inl e)
    then show ?thesis by (simp only: save_files_read_error fst_conv)
  next
    case (Inr t)
    show ?thesis
    proof (cases "get_or_create (db w) app (hd (split_char CHR ''.'' f0)) (json_dumps (readlines t))")
      case (Inl e)
      with Inr show ?thesis by (simp only: save_files_store_error fst_conv)
    next
      case r: (Inr res)
      obtain table created where res: "res = (table, created)" by (cases res)
      let ?w1 = "w\<lparr>db := table,
          stdout := stdout w @ [if created then MsgSaved app f0 else MsgIgnored app f0]\<rparr>"
      have "matching table a n = matching (db w) a n"
        using get_or_create_other_app [OF r [unfolded res] Cons.prems] .
      moreover have "matching (db (fst (save_files app fl ?w1))) a n = matching (db ?w1) a n"
        using Cons.IH [OF Cons.prems] .
      ultimately show ?thesis unfolding save_files_step [OF Inr r [unfolded res]] by simp
    qed
  qed
qed

lemma save_files_ok_head:
  assumes "save_files app (f0 # fl) w = (w', None)"
  obtains t table created where
    "read_file (fs w) f0 = Inr t"
    "get_or_create (db w) app (hd (split_char CHR ''.'' f0)) (json_dumps (readlines t))
       = Inr (table, created)"
    "save_files app fl
       (w\<lparr>db := table,
          stdout := stdout w @ [if created then MsgSaved app f0 else MsgIgnored app f0]\<rparr>)
       = (w', None)"
proof (cases "read_file (fs w) f0")
  case (Inl e)
  with assms show ?thesis by (simp only: save_files_read_error) simp
next
  case (Inr t)
  show ?thesis
  proof (cases "get_or_create (db w) app (hd (split_char CHR ''.'' f0)) (json_dumps (readlines t))")
    case (Inl e)
    with Inr assms show ?thesis by (simp only: save_files_store_error) simp
  next
    case r: (Inr res)
    obtain table created where res: "res = (table, created)" by (cases res)
    from assms have "save_files app fl
       (w\<lparr>db := table,
          stdout := stdout w @ [if created then MsgSaved app f0 else MsgIgnored app f0]\<rparr>)
       = (w', None)"
      unfolding save_files_step [OF Inr r [unfolded res]] .
    with Inr r res that show ?thesis by blast
  qed
qed

lemma save_files_one_row:
  assumes "save_files app fl w = (w', None)" "f0 \<in> set fl"
  shows "length (matching (db w') app (hd (split_char CHR ''.'' f0))) = 1"
  using assms
proof (induction fl arbitrary: w)
  case Nil
  then show ?case by simp
next
  case (Cons f1 fl)
  from Cons.prems(1) obtain t table created where
    rd: "read_file (fs w) f1 = Inr t"
    and gc: "get_or_create (db w) app (hd (split_char CHR ''.'' f1)) (json_dumps (readlines t))
       = Inr (table, created)"
    and run: "save_files app fl
       (w\<lparr>db := table,
          stdout := stdout w @ [if created then MsgSaved app f1 else MsgIgnored app f1]\<rparr>)
       = (w', None)"
    by (rule save_files_ok_head)
  let ?w1 = "w\<lparr>db := table,
          stdout := stdout w @ [if created then MsgSaved app f1 else MsgIgnored app f1]\<rparr>"
  show ?case
  proof (cases "f0 = f1")
    case True
    have "length (matching table app (hd (split_char CHR ''.'' f0))) = 1"
      unfolding True using get_or_create_found [OF gc] .
    moreover have "grows table (db w')" using save_files_grows [of ?w1 app fl] run by simp
    ultimately show ?thesis using grows_one by blast
  next
    case False
    with Cons.prems(2) have "f0 \<in> set fl" by simp
    with Cons.IH [OF run] show ?thesis .
  qed
qed

lemma save_files_fresh_row:
  assumes "save_files app fl w = (w', None)"
    and "find (\<lambda>f. hd (split_char CHR ''.'' f) = k) fl = Some f0"
    and "matching (db w) app k = []"
    and "read_file (fs w) f0 = Inr t"
  shows "matching (db w') app k = [\<lparr>app_name = app, file_name = k, file_content = json_dumps (readlines t)\<rparr>]"
  using assms
proof (induction fl arbitrary: w)
  case Nil
  then show ?case by simp
next
  case (Cons f1 fl)
  from Cons.prems(1) obtain t1 table created where
    rd: "read_file (fs w) f1 = Inr t1"
    and gc: "get_or_create (db w) app (hd (split_char CHR ''.'' f1)) (json_dumps (readlines t1))
       = Inr (table, created)"
    and run: "save_files app fl
       (w\<lparr>db := table,
          stdout := stdout w @ [if created then MsgSaved app f1 else MsgIgnored app f1]\<rparr>)
       = (w', None)"
    by (rule save_files_ok_head)
  let ?w1 = "w\<lparr>db := table,
          stdout := stdout w @ [if created then MsgSaved app f1 else MsgIgnored app f1]\<rparr>"
  show ?case
  proof (cases "hd (split_char CHR ''.'' f1) = k")
    case True
    with Cons.prems(2) have "f0 = f1" by simp
    with rd Cons.prems(4) have "t1 = t" by simp
    from Cons.prems(3) have "matching (db w) app (hd (split_char CHR ''.'' f1)) = []"
      using True by simp
    from get_or_create_fresh [OF gc this] have
      m: "matching table app k = [\<lparr>app_name = app, file_name = k, file_content = json_dumps (readlines t)\<rparr>]"
      using True \<open>t1 = t\<close> by simp
    have "grows table (db w')" using save_files_grows [of ?w1 app fl] run by simp
    then have "matching (db w') app k = matching table app k"
      using m by (simp add: grows_kept)
    with m show ?thesis by simp
  next
    case False
    with Cons.prems(2) have fnd: "find (\<lambda>f. hd (split_char CHR ''.'' f) = k) fl = Some f0" by simp
    have "matching table app k = matching (db w) app k"
    proof (rule get_or_create_other_name [OF gc])
      show "k \<noteq> hd (split_char CHR ''.'' f1)" using False by blast
    qed
    with Cons.prems(3) have m: "matching (db ?w1) app k = []" by simp
    have rd1: "read_file (fs ?w1) f0 = Inr t" using Cons.prems(4) by simp
    show ?thesis using Cons.IH [OF run fnd m rd1] .
  qed
qed


lemma dict_set_keys: "fst ` set (dict_set d k v) = insert k (fst ` set d)"
proof (induction d)
  case Nil
  then show ?case by simp
next
  case (Cons e d)
  obtain k' v' where e: "e = (k', v')" by (cases e)
  show ?case using Cons by (cases "k' = k") (simp_all add: e insert_commute)
qed

lemma dict_set_distinct: "distinct (map fst d) \<Longrightarrow> distinct (map fst (dict_set d k v))"
proof (induction d)
  case Nil
  then show ?case by simp
next
  case (Cons e d)
  obtain k' v' where e: "e = (k', v')" by (cases e)
  show ?case
  proof (cases "k' = k")
    case True
    with Cons.prems show ?thesis by (simp add: e)
  next
    case False
    have "k' \<notin> fst ` set (dict_set d k v)" using Cons.prems False by (simp add: e dict_set_keys)
    with Cons False show ?thesis by (simp add: e)
  qed
qed

lemma dict_set_same:
  "\<forall>kv \<in> set d. snd kv = g (fst kv) \<Longrightarrow> set (dict_set d k (g k)) = insert (k, g k) (set d)"
proof (induction d)
  case Nil
  then show ?case by simp
next
  case (Cons e d)
  obtain k' v' where e: "e = (k', v')" by (cases e)
  from Cons.prems have v': "v' = g k'" and rest: "\<forall>kv \<in> set d. snd kv = g (fst kv)"
    by (simp_all add: e)
  show ?case using Cons.IH [OF rest] v' by (cases "k' = k") (simp_all add: e insert_commute)
qed

lemma app_migrations_dirs_distinct:
  "distinct (map fst acc) \<Longrightarrow> distinct (map fst (app_migrations_dirs env f apps acc))"
  by (induction apps arbitrary: acc) (simp_all add: Let_def dict_set_distinct)

lemma app_migrations_dirs_set:
  "\<forall>kv \<in> set acc. snd kv = migrations_path env (fst kv) \<Longrightarrow>
   set (app_migrations_dirs env f apps acc) =
     set acc \<union> {(app_path_of a, migrations_path env (app_path_of a)) | a.
                  a \<in> set apps \<and> os_path_exists f (os_path_join (BASE_DIR env) (app_path_of a))}"
proof (induction apps arbitrary: acc)
  case Nil
  then show ?case by simp
next
  case (Cons a apps)
  show ?case
  proof (cases "os_path_exists f (os_path_join (BASE_DIR env) (app_path_of a))")
    case False
    then show ?thesis using Cons.IH [OF Cons.prems]
      by (auto simp: Let_def app_path_of_def)
  next
    case True
    let ?acc = "dict_set acc (app_path_of a) (migrations_path env (app_path_of a))"
    have s: "set ?acc = insert (app_path_of a, migrations_path env (app_path_of a)) (set acc)"
      using Cons.prems by (rule dict_set_same)
    then have "\<forall>kv \<in> set ?acc. snd kv = migrations_path env (fst kv)" using Cons.prems by auto
    from Cons.IH [OF this] s True show ?thesis
      by (auto simp: Let_def app_path_of_def migrations_path_def)
  qed
qed

lemma get_app_migrations_dir_distinct: "distinct (map fst (get_app_migrations_dir env f))"
  by (simp add: get_app_migrations_dir_def app_migrations_dirs_distinct)

lemma get_app_migrations_dir_set:
  "set (get_app_migrations_dir env f) =
     {(app_path_of a, migrations_path env (app_path_of a)) | a.
        a \<in> set (INSTALLED_APPS env) \<and> os_path_exists f (os_path_join (BASE_DIR env) (app_path_of a))}"
  unfolding get_app_migrations_dir_def using app_migrations_dirs_set [of "[]" env f "INSTALLED_APPS env"]
  by simp

lemma save_apps_ok_head:
  assumes "save_apps ((app, path) # ds) w = (w', None)"
  obtains fl w1 where
    "get_app_migrations_file (fs w) path = Inr fl"
    "save_files app fl w = (w1, None)"
    "save_apps ds w1 = (w', None)"
proof (cases "get_app_migrations_file (fs w) path")
  case (Inl e)
  with assms show ?thesis by (simp only: save_apps_listing_error) simp
next
  case (Inr fl)
  obtain w1 e1 where r: "save_files app fl w = (w1, e1)" by (cases "save_files app fl w")
  show ?thesis
  proof (cases e1)
    case (Some e)
    from assms show ?thesis unfolding save_apps_files_error [OF Inr r [unfolded Some]] by simp
  next
    case None
    from assms have "save_apps ds w1 = (w', None)"
      unfolding save_apps_step [OF Inr r [unfolded None]] .
    with Inr r None that show ?thesis by blast
  qed
qed

lemma save_apps_other_app:
  "app \<notin> fst ` set ds \<Longrightarrow> matching (db (fst (save_apps ds w))) app n = matching (db w) app n"
proof (induction ds arbitrary: w)
  case Nil
  then show ?case by simp
next
  case (Cons d ds)
  obtain a1 p1 where d: "d = (a1, p1)" by (cases d)
  from Cons.prems have ne: "app \<noteq> a1" and rest: "app \<notin> fst ` set ds" by (auto simp: d)
  show ?case
  proof (cases "get_app_migrations_file (fs w) p1")
    case (Inl e)
    then show ?thesis unfolding d by (simp only: save_apps_listing_error fst_conv)
  next
    case (Inr fl)
    obtain w1 e1 where r: "save_files a1 fl w = (w1, e1)" by (cases "save_files a1 fl w")
    have m1: "matching (db w1) app n = matching (db w) app n"
      using save_files_other_app [OF ne, of fl w n] r by simp
    show ?thesis
    proof (cases e1)
      case None
      show ?thesis unfolding d save_apps_step [OF Inr r [unfolded None]] Cons.IH [OF rest] m1 ..
    next
      case (Some e)
      show ?thesis unfolding d save_apps_files_error [OF Inr r [unfolded Some]] using m1 by simp
    qed
  qed
qed

lemma save_apps_one_row:
  assumes "save_apps ds w = (w', None)" "(app, path) \<in> set ds"
    and "get_app_migrations_file (fs w) path = Inr fl" "f0 \<in> set fl"
  shows "length (matching (db w') app (hd (split_char CHR ''.'' f0))) = 1"
  using assms
proof (induction ds arbitrary: w)
  case Nil
  then show ?case by simp
next
  case (Cons d ds)
  obtain a1 p1 where d: "d = (a1, p1)" by (cases d)
  from Cons.prems(1) obtain fl1 w1 where
    ls: "get_app_migrations_file (fs w) p1 = Inr fl1"
    and sf: "save_files a1 fl1 w = (w1, None)"
    and run: "save_apps ds w1 = (w', None)"
    unfolding d by (rule save_apps_ok_head)
  have f1: "fs w1 = fs w" using save_files_fs [of a1 fl1 w] sf by simp
  show ?case
  proof (cases "(app, path) = (a1, p1)")
    case True
    with ls Cons.prems(3) have "fl1 = fl" by simp
    with sf True have "save_files app fl w = (w1, None)" by simp
    from save_files_one_row [OF this Cons.prems(4)]
    have "length (matching (db w1) app (hd (split_char CHR ''.'' f0))) = 1" .
    moreover have "grows (db w1) (db w')" using save_apps_grows [of w1 ds] run by simp
    ultimately show ?thesis using grows_one by blast
  next
    case False
    with Cons.prems(2) have mem: "(app, path) \<in> set ds" by (auto simp: d)
    from Cons.prems(3) f1 have "get_app_migrations_file (fs w1) path = Inr fl" by simp
    from Cons.IH [OF run mem this Cons.prems(4)] show ?thesis .
  qed
qed

lemma save_apps_fresh_row:
  assumes "save_apps ds w = (w', None)" "(app, path) \<in> set ds" "distinct (map fst ds)"
    and "get_app_migrations_file (fs w) path = Inr fl"
    and "find (\<lambda>f. hd (split_char CHR ''.'' f) = k) fl = Some f0"
    and "matching (db w) app k = []"
    and "read_file (fs w) f0 = Inr t"
  shows "matching (db w') app k = [\<lparr>app_name = app, file_name = k, file_content = json_dumps (readlines t)\<rparr>]"
  using assms
proof (induction ds arbitrary: w)
  case Nil
  then show ?case by simp
next
  case (Cons d ds)
  obtain a1 p1 where d: "d = (a1, p1)" by (cases d)
  from Cons.prems(1) obtain fl1 w1 where
    ls: "get_app_migrations_file (fs w) p1 = Inr fl1"
    and sf: "save_files a1 fl1 w = (w1, None)"
    and run: "save_apps ds w1 = (w', None)"
    unfolding d by (rule save_apps_ok_head)
  have f1: "fs w1 = fs w" using save_files_fs [of a1 fl1 w] sf by simp
  from Cons.prems(3) have dist: "distinct (map fst ds)" and a1: "a1 \<notin> fst ` set ds"
    by (simp_all add: d)
  show ?case
  proof (cases "a1 = app")
    case True
    have "(app, path) \<notin> set ds" using a1 True by force
    with Cons.prems(2) True have "p1 = path" by (simp add: d)
    with ls Cons.prems(4) have "fl1 = fl" by simp
    with sf True have "save_files app fl w = (w1, None)" by simp
    from save_files_fresh_row [OF this Cons.prems(5,6,7)]
    have m: "matching (db w1) app k
               = [\<lparr>app_name = app, file_name = k, file_content = json_dumps (readlines t)\<rparr>]" .
    have "grows (db w1) (db w')" using save_apps_grows [of w1 ds] run by simp
    then have "matching (db w') app k = matching (db w1) app k" using m by (simp add: grows_kept)
    with m show ?thesis by simp
  next
    case False
    with Cons.prems(2) have mem: "(app, path) \<in> set ds" by (auto simp: d)
    have "app \<noteq> a1" using False by blast
    from save_files_other_app [OF this, of fl1 w k] sf Cons.prems(6)
    have m: "matching (db w1) app k = []" by simp
    from Cons.prems(4) f1 have l1: "get_app_migrations_file (fs w1) path = Inr fl" by simp
    from Cons.prems(7) f1 have r1: "read_file (fs w1) f0 = Inr t" by simp
    from Cons.IH [OF run mem dist l1 Cons.prems(5) m r1] show ?thesis .
  qed
qed

section \<open>The load loops\<close>







lemma load_rows_error_header:
  "write_file f (os_path_join path (file_name m @ ''.py'')) coding_header = Inl e \<Longrightarrow>
   load_rows path (m # rest) f = (f, Some e)"
  by simp








lemma load_apps_ok_head:
  assumes "load_apps ((app, path) # rest) w = (w', None)"
  obtains f f1 f2 where
    "(if os_path_exists (fs w) path = False then os_mkdir (fs w) path else Inr (fs w)) = Inr f"
    "write_file f (marker_file path) [] = Inr f1"
    "load_rows path (filter (\<lambda>m. app_name m = app) (db w)) f1 = (f2, None)"
    "load_apps rest (w\<lparr>fs := f2, stdout := stdout w @ [MsgLoaded app]\<rparr>) = (w', None)"
proof (cases "if os_path_exists (fs w) path = False then os_mkdir (fs w) path else Inr (fs w)")
  case (Inl e)
  with assms show ?thesis by simp
next
  case d: (Inr f)
  show ?thesis
  proof (cases "write_file f (marker_file path) []")
    case (Inl e)
    with d assms show ?thesis by (simp add: marker_file_def)
  next
    case m: (Inr f1)
    obtain f2 e2 where r: "load_rows path (filter (\<lambda>m. app_name m = app) (db w)) f1 = (f2, e2)"
      by (cases "load_rows path (filter (\<lambda>m. app_name m = app) (db w)) f1")
    show ?thesis
    proof (cases e2)
      case (Some e)
      with d m r assms show ?thesis by (simp add: marker_file_def)
    next
      case None
      with d m r assms
      have "load_apps rest (w\<lparr>fs := f2, stdout := stdout w @ [MsgLoaded app]\<rparr>) = (w', None)"
        by (simp add: marker_file_def)
      with d m r None that show ?thesis by blast
    qed
  qed
qed



lemma load_apps_db: "load_apps ds w = (w', None) \<Longrightarrow> db w' = db w"
proof (induction ds arbitrary: w)
  case Nil
  then show ?case by simp
next
  case (Cons d ds)
  obtain app path where d: "d = (app, path)" by (cases d)
  from Cons.prems obtain f2 where
    "load_apps ds (w\<lparr>fs := f2, stdout := stdout w @ [MsgLoaded app]\<rparr>) = (w', None)"
    unfolding d by (rule load_apps_ok_head)
  from Cons.IH [OF this] show ?case by simp
qed
















section \<open>The error block and the transaction\<close>

lemma answers_400_reject: "answers_400 (transaction_atomic (reject True error reason))"
  by (simp add: answers_400_def transaction_atomic_def reject_def logger_error_def set_response_def)

lemma atomic_raised: "transaction_atomic (Raised x, marked) = (Raised x, RolledBack)"
  by (simp add: transaction_atomic_def)

section \<open>The response envelope\<close>

text \<open>
  Claim C8.  Whatever its arguments, \<open>set_response\<close> builds a dict with exactly the keys
  \<open>result\<close>, \<open>total\<close>, \<open>extra\<close> and \<open>data\<close>; \<open>total\<close> is the length of \<open>data\<close> when
  \<open>data\<close> is a list and 0 otherwise; \<open>data\<close> and \<open>extra\<close> are the empty dict when they are
  passed as \<open>None\<close>; the status is the one given.
\<close>

theorem set_response_envelope:
  "data (set_response result dat ext st) =
     PDict [(''result'', result),
            (''total'', PInt (case dat of PList xs \<Rightarrow> int (length xs) | _ \<Rightarrow> 0)),
            (''extra'', if ext = PNone then PDict [] else ext),
            (''data'', if dat = PNone then PDict [] else dat)]
   \<and> status (set_response result dat ext st) = st"
  by (cases dat) (simp_all add: set_response_def main_body_def)

theorem set_response_envelope_witness:
  "data (set_response (PStr ''success'') (PList [PInt 1, PInt 2]) PNone 200) =
     PDict [(''result'', PStr ''success''), (''total'', PInt 2), (''extra'', PDict []),
            (''data'', PList [PInt 1, PInt 2])]
   \<and> data (set_response (PStr ''success'') PNone PNone 200) =
     PDict [(''result'', PStr ''success''), (''total'', PInt 0), (''extra'', PDict []),
            (''data'', PDict [])]"
  using set_response_envelope [of "PStr ''success''" "PList [PInt 1, PInt 2]" PNone 200]
    set_response_envelope [of "PStr ''success''" PNone PNone 200]
  by simp

section \<open>Authentication and permission before dispatch\<close>

text \<open>
  Claim C7.  \<open>dispatch\<close> runs the authentication check first and answers 401 without
  running anything else when it fails; otherwise it runs the permission check and answers 403
  without reaching the method handler when that fails; the method handler runs exactly when both
  checks pass, and its response is the result.
\<close>

theorem dispatch_authentication_permission:
  "dispatch self req =
     (if \<not> fst (check_authentication self req)
      then (\<lparr>data = PStr ''Unauthorized'', status = 401\<rparr>, [CheckAuthentication])
      else if \<not> check_permission self (req\<lparr>user := snd (check_authentication self req)\<rparr>)
      then (\<lparr>data = PStr ''No permission'', status = 403\<rparr>,
            [CheckAuthentication, CheckPermission])
      else (super_dispatch self (req\<lparr>user := snd (check_authentication self req)\<rparr>),
            [CheckAuthentication, CheckPermission, MethodHandler]))
   \<and> (MethodHandler \<in> set (snd (dispatch self req))) =
       (fst (check_authentication self req)
        \<and> check_permission self (req\<lparr>user := snd (check_authentication self req)\<rparr>))"
  by (auto simp: dispatch_def Let_def HTTP_401_UNAUTHORIZED_def HTTP_403_FORBIDDEN_def
      split: prod.splits)

theorem dispatch_authentication_permission_witness:
  "status (fst (dispatch (sample_view False True) (mk_request []))) = 401
   \<and> snd (dispatch (sample_view False True) (mk_request [])) = [CheckAuthentication]
   \<and> status (fst (dispatch (sample_view True False) (mk_request []))) = 403
   \<and> snd (dispatch (sample_view True False) (mk_request []))
       = [CheckAuthentication, CheckPermission]
   \<and> dispatch (sample_view True True) (mk_request [])
       = (ok_response, [CheckAuthentication, CheckPermission, MethodHandler])"
  using dispatch_authentication_permission [of "sample_view False True" "mk_request []"]
    dispatch_authentication_permission [of "sample_view True False" "mk_request []"]
    dispatch_authentication_permission [of "sample_view True True" "mk_request []"]
  by (simp add: sample_view_def)

section \<open>The initial action\<close>

text \<open>
  Claim C10.  The \<open>initial\<close> action never fails, appends one message to the output and
  leaves the file system and every row of the migration store as they were; what it prints does
  not depend on the file system or the store.
\<close>

theorem initial_only_prints:
  "handle env Initial w = (w\<lparr>stdout := stdout w @ [MsgInitial]\<rparr>, None)
   \<and> fs (fst (handle env Initial w)) = fs w
   \<and> db (fst (handle env Initial w)) = db w
   \<and> stdout (fst (handle env Initial (w\<lparr>fs := f, db := d\<rparr>))) = stdout w @ [MsgInitial]"
  by (simp add: initial_def)

theorem initial_only_prints_witness:
  "db (fst (handle \<lparr>BASE_DIR = ''/srv'', INSTALLED_APPS = [''app'']\<rparr> Initial
        \<lparr>fs = fs_pyc, db = [\<lparr>app_name = ''app'', file_name = ''0001'', file_content = ''[]''\<rparr>],
         stdout = []\<rparr>))
     = [\<lparr>app_name = ''app'', file_name = ''0001'', file_content = ''[]''\<rparr>]
   \<and> fs (fst (handle \<lparr>BASE_DIR = ''/srv'', INSTALLED_APPS = [''app'']\<rparr> Initial
        \<lparr>fs = fs_pyc, db = [\<lparr>app_name = ''app'', file_name = ''0001'', file_content = ''[]''\<rparr>],
         stdout = []\<rparr>)) = fs_pyc"
  using initial_only_prints [of "\<lparr>BASE_DIR = ''/srv'', INSTALLED_APPS = [''app'']\<rparr>"
      "\<lparr>fs = fs_pyc, db = [\<lparr>app_name = ''app'', file_name = ''0001'', file_content = ''[]''\<rparr>],
        stdout = []\<rparr>"]
  by simp

section \<open>Pagination\<close>





section \<open>The migration files of a directory\<close>









section \<open>Saving is idempotent\<close>

text \<open>
  Claim C5.  Running \<open>save\<close> again on the world the first run left, with the file system
  unchanged, leaves the table as the first run left it and ends the same way.  Whatever the
  file system holds, the rows present before a run are still there after it, unchanged and in
  place, and a key that had rows gets no other.
\<close>

theorem save_idempotent:
  "db (fst (save env (fst (save env w)))) = db (fst (save env w))
   \<and> snd (save env (fst (save env w))) = snd (save env w)
   \<and> take (length (db w)) (db (fst (save env w))) = db w
   \<and> grows (db w) (db (fst (save env w)))"
proof -
  obtain w' e where r: "save_apps (get_app_migrations_dir env (fs w)) w = (w', e)"
    by (cases "save_apps (get_app_migrations_dir env (fs w)) w")
  have f: "fs w' = fs w" using save_apps_fs [of "get_app_migrations_dir env (fs w)" w] r by simp
  have "db (fst (save_apps (get_app_migrations_dir env (fs w)) w')) = db w'
        \<and> snd (save_apps (get_app_migrations_dir env (fs w)) w') = e"
    using r grows_refl f by (rule save_apps_stable)
  then show ?thesis
    using r f save_apps_prefix [of w "get_app_migrations_dir env (fs w)"]
      save_apps_grows [of w "get_app_migrations_dir env (fs w)"]
    by (simp add: save_def)
qed


theorem save_idempotent_witness:
  "db (fst (save sample_env (fst (save sample_env sample_world))))
     = db (fst (save sample_env sample_world))
   \<and> take (length [stale_row]) (db (fst (save sample_env (sample_world\<lparr>db := [stale_row]\<rparr>))))
     = [stale_row]"
  using save_idempotent [of sample_env sample_world]
    save_idempotent [of sample_env "sample_world\<lparr>db := [stale_row]\<rparr>"]
  by simp

section \<open>What save stores\<close>

text \<open>
  Claim C1, as stated, fails.  Saved from an empty table, the row of
  \<open>/srv/app/migrations/0001_initial.py\<close> carries the joined path cut at its first dot as
  \<open>file_name\<close>, so no row has the stem \<open>0001_initial\<close>; and a row that is already there
  under the key keeps its content, which is not the serialization of the file's lines.
\<close>

theorem save_stores_files_counterexample:
  "save sample_env sample_world =
     (\<lparr>fs = sample_fs,
       db = [\<lparr>app_name = ''app'', file_name = ''/srv/app/migrations/0001_initial'',
              file_content = json_dumps [[120, 10], [121]]\<rparr>],
       stdout = [MsgSaved ''app'' ''/srv/app/migrations/0001_initial.py'']\<rparr>, None)
   \<and> matching (db (fst (save sample_env sample_world))) ''app'' ''0001_initial'' = []
   \<and> db (fst (save sample_env (sample_world\<lparr>db := [stale_row]\<rparr>))) = [stale_row]
   \<and> file_content stale_row \<noteq> json_dumps [[120, 10], [121]]"
  by code_simp

text \<open>
  Claim C1, amended.  Let an installed application have an existing directory, and let \<open>f0\<close>
  be one of the files that \<open>get_app_migrations_file\<close> returns for its migrations directory.
  When \<open>save\<close> completes, the table holds exactly one row whose \<open>app_name\<close> is the
  application's path and whose \<open>file_name\<close> is the key that \<open>save\<close> derives from
  \<open>f0\<close>.  When no row had that key before the run and \<open>f0\<close> is the first file of the
  directory with the key, the content of that row is the JSON serialization of the list of lines
  of \<open>f0\<close>.
\<close>

theorem save_stores_files:
  assumes "save env w = (w', None)"
    and "a \<in> set (INSTALLED_APPS env)"
    and "app = str_join os_sep (split_char CHR ''.'' a)"
    and "os_path_exists (fs w) (os_path_join (BASE_DIR env) app)"
    and "path = os_path_join (os_path_join (BASE_DIR env) app) migrations_dir_name"
    and "get_app_migrations_file (fs w) path = Inr fl"
    and "f0 \<in> set fl"
    and "k = hd (split_char CHR ''.'' f0)"
  shows "length (matching (db w') app k) = 1
    \<and> (matching (db w) app k = [] \<and> find (\<lambda>f. hd (split_char CHR ''.'' f) = k) fl = Some f0
         \<and> read_file (fs w) f0 = Inr t \<longrightarrow>
       matching (db w') app k
         = [\<lparr>app_name = app, file_name = k, file_content = json_dumps (readlines t)\<rparr>])"
proof -
  have run: "save_apps (get_app_migrations_dir env (fs w)) w = (w', None)"
    using assms(1) by (simp add: save_def)
  have mem: "(app, path) \<in> set (get_app_migrations_dir env (fs w))"
    unfolding get_app_migrations_dir_set using assms(2,3,4,5)
    by (auto simp: app_path_of_def migrations_path_def)
  have one: "length (matching (db w') app k) = 1"
    unfolding assms(8) using run mem assms(6,7) by (rule save_apps_one_row)
  have "matching (db w') app k
         = [\<lparr>app_name = app, file_name = k, file_content = json_dumps (readlines t)\<rparr>]"
    if "matching (db w) app k = []" "find (\<lambda>f. hd (split_char CHR ''.'' f) = k) fl = Some f0"
       "read_file (fs w) f0 = Inr t"
    using run mem get_app_migrations_dir_distinct assms(6) that(2,1,3)
    by (rule save_apps_fresh_row)
  with one show ?thesis by blast
qed

theorem save_stores_files_witness:
  "matching (db (fst (save sample_env sample_world))) ''app'' ''/srv/app/migrations/0001_initial''
     = [\<lparr>app_name = ''app'', file_name = ''/srv/app/migrations/0001_initial'',
         file_content = json_dumps (readlines [120, 10, 121])\<rparr>]"
proof -
  have h1: "save sample_env sample_world =
     (\<lparr>fs = sample_fs,
       db = [\<lparr>app_name = ''app'', file_name = ''/srv/app/migrations/0001_initial'',
              file_content = json_dumps [[120, 10], [121]]\<rparr>],
       stdout = [MsgSaved ''app'' ''/srv/app/migrations/0001_initial.py'']\<rparr>, None)"
    by code_simp
  have h2: "''app'' \<in> set (INSTALLED_APPS sample_env)" by (simp add: sample_env_def)
  have h3: "''app'' = str_join os_sep (split_char CHR ''.'' ''app'')" by code_simp
  have h4: "os_path_exists (fs sample_world) (os_path_join (BASE_DIR sample_env) ''app'')"
    by code_simp
  have h5: "''/srv/app/migrations''
      = os_path_join (os_path_join (BASE_DIR sample_env) ''app'') migrations_dir_name"
    by code_simp
  have h6: "get_app_migrations_file (fs sample_world) ''/srv/app/migrations''
      = Inr [''/srv/app/migrations/0001_initial.py'']"
    by code_simp
  have h7: "''/srv/app/migrations/0001_initial.py'' \<in> set [''/srv/app/migrations/0001_initial.py'']"
    by simp
  have h8: "''/srv/app/migrations/0001_initial''
      = hd (split_char CHR ''.'' ''/srv/app/migrations/0001_initial.py'')"
    by code_simp
  have h9: "matching (db sample_world) ''app'' ''/srv/app/migrations/0001_initial'' = []
      \<and> find (\<lambda>f. hd (split_char CHR ''.'' f) = ''/srv/app/migrations/0001_initial'')
            [''/srv/app/migrations/0001_initial.py'']
          = Some ''/srv/app/migrations/0001_initial.py''
      \<and> read_file (fs sample_world) ''/srv/app/migrations/0001_initial.py'' = Inr [120, 10, 121]"
    by code_simp
  from save_stores_files [OF h1 h2 h3 h4 h5 h6 h7 h8, of "[120, 10, 121]"] h9 h1
  show ?thesis by simp
qed

section \<open>What load writes\<close>





section \<open>Save, then load\<close>



section \<open>Errors in the CRUD flows\<close>

text \<open>
  Claim C3, as stated, fails.  With the logger bound: when \<open>_perform_delete\<close> reports an
  error, \<open>destroy\<close> answers 400 without marking the transaction, which is committed; when
  \<open>_perform_patch\<close> raises, \<open>extra\<close> marks the transaction and answers with status 200;
  and an exception of a pre-process hook leaves \<open>list\<close> without any response.  With the
  name \<open>logger\<close> unbound, as the file leaves it, an error that the pre-process hook reports
  ends \<open>list\<close> with \<open>NameError\<close>.
\<close>

theorem crud_flows_reject_errors_counterexample:
  "transaction_atomic (destroy True hook_ok hook_ok (Inr ()) hook_reports hook_ok)
     = (Returned (set_response (PStr ''busy'') (PStr ''in use'') PNone 400), Committed)
   \<and> transaction_atomic
        (extra True True hook_ok hook_ok (Inr ()) (Inl (HookError ''boom'')) hook_ok)
     = (Returned (set_response (PStr ''Failed to patch'') (PStr ''patch failed'') PNone 200),
        RolledBack)
   \<and> transaction_atomic
        (list_flow True (Inl (HookError ''boom'')) (Inr ok_response) (\<lambda>r. Inr (PNone, PStr [], r)))
     = (Raised (HookError ''boom''), RolledBack)
   \<and> transaction_atomic
        (list_flow False hook_reports (Inr ok_response) (\<lambda>r. Inr (PNone, PStr [], r)))
     = (Raised NameError, RolledBack)
   \<and> \<not> answers_400 (transaction_atomic (destroy True hook_ok hook_ok (Inr ()) hook_reports hook_ok))
   \<and> \<not> answers_400 (transaction_atomic
        (extra True True hook_ok hook_ok (Inr ()) (Inl (HookError ''boom'')) hook_ok))
   \<and> \<not> answers_400 (transaction_atomic
        (list_flow True (Inl (HookError ''boom'')) (Inr ok_response) (\<lambda>r. Inr (PNone, PStr [], r))))"
  by (simp add: destroy_def extra_def list_flow_def hook_ok_def hook_reports_def
      transaction_atomic_def logger_error_def reject_def answers_400_def set_response_def
      HTTP_400_BAD_REQUEST_def HTTP_200_OK_def)

text \<open>
  Claim C3, amended.  Let the name \<open>logger\<close> be bound.  In each of the flows \<open>list\<close>,
  \<open>retrieve\<close>, \<open>create\<close>, both \<open>update\<close>s, \<open>destroy\<close> and \<open>extra\<close>: when a
  pre-process, validate or post-process hook reports an error, when the serializer is not valid,
  when the perform step raises (\<open>list\<close>, \<open>create\<close>, the \<open>update\<close>s, \<open>destroy\<close>) or
  reports an error (\<open>retrieve\<close>, the \<open>update\<close>s, \<open>extra\<close>), the flow answers with status
  400 and the transaction is rolled back.  Bound logger or not, an exception raised by a
  pre-process, validate or post-process hook, by the fetch of the instance, by the serializer's
  validation in \<open>create\<close>, or by the perform step of \<open>retrieve\<close> and of the partial update, is
  not caught: it leaves the flow, and the transaction is rolled back.
\<close>

theorem crud_flows_reject_errors:
  "(reports pl \<longrightarrow>
       answers_400 (transaction_atomic (list_flow True pl fl ql)))
   \<and> (passes pl \<and> isl fl \<longrightarrow>
       answers_400 (transaction_atomic (list_flow True pl fl ql)))
   \<and> (passes pl \<and> fl = Inr resp \<and> reports (ql resp) \<longrightarrow>
       answers_400 (transaction_atomic (list_flow True pl fl ql)))
   \<and> (pl = Inl x \<longrightarrow>
       transaction_atomic (list_flow lg pl fl ql) = (Raised x, RolledBack))
   \<and> (passes pl \<and> fl = Inr resp \<and> ql resp = Inl x \<longrightarrow>
       transaction_atomic (list_flow lg pl fl ql) = (Raised x, RolledBack))
   \<and> (reports pr \<longrightarrow>
       answers_400 (transaction_atomic (retrieve True pr gr fr qr)))
   \<and> (passes pr \<and> gr = Inr () \<and> reports fr \<longrightarrow>
       answers_400 (transaction_atomic (retrieve True pr gr fr qr)))
   \<and> (passes pr \<and> gr = Inr () \<and> passes fr \<and> reports qr \<longrightarrow>
       answers_400 (transaction_atomic (retrieve True pr gr fr qr)))
   \<and> (pr = Inl x \<longrightarrow>
       transaction_atomic (retrieve lg pr gr fr qr) = (Raised x, RolledBack))
   \<and> (passes pr \<and> gr = Inl x \<longrightarrow>
       transaction_atomic (retrieve lg pr gr fr qr) = (Raised x, RolledBack))
   \<and> (passes pr \<and> gr = Inr () \<and> fr = Inl x \<longrightarrow>
       transaction_atomic (retrieve lg pr gr fr qr) = (Raised x, RolledBack))
   \<and> (passes pr \<and> gr = Inr () \<and> passes fr \<and> qr = Inl x \<longrightarrow>
       transaction_atomic (retrieve lg pr gr fr qr) = (Raised x, RolledBack))
   \<and> (reports pc \<longrightarrow>
       answers_400 (transaction_atomic (create True pc vc sc fc qc)))
   \<and> (passes pc \<and> reports vc \<longrightarrow>
       answers_400 (transaction_atomic (create True pc vc sc fc qc)))
   \<and> (passes pc \<and> passes vc \<and> sc = Inr False \<longrightarrow>
       answers_400 (transaction_atomic (create True pc vc sc fc qc)))
   \<and> (passes pc \<and> passes vc \<and> sc = Inr True \<and> isl fc \<longrightarrow>
       answers_400 (transaction_atomic (create True pc vc sc fc qc)))
   \<and> (passes pc \<and> passes vc \<and> sc = Inr True \<and> fc = Inr () \<and> reports qc \<longrightarrow>
       answers_400 (transaction_atomic (create True pc vc sc fc qc)))
   \<and> (pc = Inl x \<longrightarrow>
       transaction_atomic (create lg pc vc sc fc qc) = (Raised x, RolledBack))
   \<and> (passes pc \<and> vc = Inl x \<longrightarrow>
       transaction_atomic (create lg pc vc sc fc qc) = (Raised x, RolledBack))
   \<and> (passes pc \<and> passes vc \<and> sc = Inl x \<longrightarrow>
       transaction_atomic (create lg pc vc sc fc qc) = (Raised x, RolledBack))
   \<and> (passes pc \<and> passes vc \<and> sc = Inr True \<and> fc = Inr () \<and> qc = Inl x \<longrightarrow>
       transaction_atomic (create lg pc vc sc fc qc) = (Raised x, RolledBack))
   \<and> (reports pu \<longrightarrow>
       answers_400 (transaction_atomic (bulk_update True pu vu fu qu)))
   \<and> (passes pu \<and> reports vu \<longrightarrow>
       answers_400 (transaction_atomic (bulk_update True pu vu fu qu)))
   \<and> (passes pu \<and> passes vu \<and> isl fu \<longrightarrow>
       answers_400 (transaction_atomic (bulk_update True pu vu fu qu)))
   \<and> (passes pu \<and> passes vu \<and> reports fu \<longrightarrow>
       answers_400 (transaction_atomic (bulk_update True pu vu fu qu)))
   \<and> (passes pu \<and> passes vu \<and> passes fu \<and> reports qu \<longrightarrow>
       answers_400 (transaction_atomic (bulk_update True pu vu fu qu)))
   \<and> (pu = Inl x \<longrightarrow>
       transaction_atomic (bulk_update lg pu vu fu qu) = (Raised x, RolledBack))
   \<and> (passes pu \<and> vu = Inl x \<longrightarrow>
       transaction_atomic (bulk_update lg pu vu fu qu) = (Raised x, RolledBack))
   \<and> (passes pu \<and> passes vu \<and> passes fu \<and> qu = Inl x \<longrightarrow>
       transaction_atomic (bulk_update lg pu vu fu qu) = (Raised x, RolledBack))
   \<and> (reports pd \<longrightarrow>
       answers_400 (transaction_atomic (update True pd vd gd partial fpd sd fd qd)))
   \<and> (passes pd \<and> reports vd \<longrightarrow>
       answers_400 (transaction_atomic (update True pd vd gd partial fpd sd fd qd)))
   \<and> (passes pd \<and> passes vd \<and> gd = Inr () \<and> partial = Some v \<and> reports fpd \<longrightarrow>
       answers_400 (transaction_atomic (update True pd vd gd partial fpd sd fd qd)))
   \<and> (passes pd \<and> passes vd \<and> gd = Inr () \<and> partial = None \<and> sd = Inr False \<longrightarrow>
       answers_400 (transaction_atomic (update True pd vd gd partial fpd sd fd qd)))
   \<and> (passes pd \<and> passes vd \<and> gd = Inr () \<and> partial = None \<and> sd = Inr True \<and> isl fd \<longrightarrow>
       answers_400 (transaction_atomic (update True pd vd gd partial fpd sd fd qd)))
   \<and> (passes pd \<and> passes vd \<and> gd = Inr () \<and> partial = None \<and> sd = Inr True \<and> reports fd \<longrightarrow>
       answers_400 (transaction_atomic (update True pd vd gd partial fpd sd fd qd)))
   \<and> (passes pd \<and> passes vd \<and> gd = Inr () \<and> partial = Some v \<and> passes fpd \<and> reports qd \<longrightarrow>
       answers_400 (transaction_atomic (update True pd vd gd partial fpd sd fd qd)))
   \<and> (passes pd \<and> passes vd \<and> gd = Inr () \<and> partial = None \<and> sd = Inr True \<and> passes fd \<and> reports qd \<longrightarrow>
       answers_400 (transaction_atomic (update True pd vd gd partial fpd sd fd qd)))
   \<and> (pd = Inl x \<longrightarrow>
       transaction_atomic (update lg pd vd gd partial fpd sd fd qd) = (Raised x, RolledBack))
   \<and> (passes pd \<and> vd = Inl x \<longrightarrow>
       transaction_atomic (update lg pd vd gd partial fpd sd fd qd) = (Raised x, RolledBack))
   \<and> (passes pd \<and> passes vd \<and> gd = Inl x \<longrightarrow>
       transaction_atomic (update lg pd vd gd partial fpd sd fd qd) = (Raised x, RolledBack))
   \<and> (passes pd \<and> passes vd \<and> gd = Inr () \<and> partial = Some v \<and> fpd = Inl x \<longrightarrow>
       transaction_atomic (update lg pd vd gd partial fpd sd fd qd) = (Raised x, RolledBack))
   \<and> (passes pd \<and> passes vd \<and> gd = Inr () \<and> partial = Some v \<and> passes fpd \<and> qd = Inl x \<longrightarrow>
       transaction_atomic (update lg pd vd gd partial fpd sd fd qd) = (Raised x, RolledBack))
   \<and> (passes pd \<and> passes vd \<and> gd = Inr () \<and> partial = None \<and> sd = Inr True \<and> passes fd \<and> qd = Inl x \<longrightarrow>
       transaction_atomic (update lg pd vd gd partial fpd sd fd qd) = (Raised x, RolledBack))
   \<and> (reports px \<longrightarrow>
       answers_400 (transaction_atomic (destroy True px vx gx fx qx)))
   \<and> (passes px \<and> reports vx \<longrightarrow>
       answers_400 (transaction_atomic (destroy True px vx gx fx qx)))
   \<and> (passes px \<and> passes vx \<and> gx = Inr () \<and> isl fx \<longrightarrow>
       answers_400 (transaction_atomic (destroy True px vx gx fx qx)))
   \<and> (passes px \<and> passes vx \<and> gx = Inr () \<and> passes fx \<and> reports qx \<longrightarrow>
       answers_400 (transaction_atomic (destroy True px vx gx fx qx)))
   \<and> (px = Inl x \<longrightarrow>
       transaction_atomic (destroy lg px vx gx fx qx) = (Raised x, RolledBack))
   \<and> (passes px \<and> vx = Inl x \<longrightarrow>
       transaction_atomic (destroy lg px vx gx fx qx) = (Raised x, RolledBack))
   \<and> (passes px \<and> passes vx \<and> gx = Inl x \<longrightarrow>
       transaction_atomic (destroy lg px vx gx fx qx) = (Raised x, RolledBack))
   \<and> (passes px \<and> passes vx \<and> gx = Inr () \<and> passes fx \<and> qx = Inl x \<longrightarrow>
       transaction_atomic (destroy lg px vx gx fx qx) = (Raised x, RolledBack))
   \<and> (reports pe \<longrightarrow>
       answers_400 (transaction_atomic (extra bulk True pe ve ge fe qe)))
   \<and> (passes pe \<and> reports ve \<longrightarrow>
       answers_400 (transaction_atomic (extra bulk True pe ve ge fe qe)))
   \<and> (passes pe \<and> passes ve \<and> ge = Inr () \<and> reports fe \<longrightarrow>
       answers_400 (transaction_atomic (extra bulk True pe ve ge fe qe)))
   \<and> (passes pe \<and> passes ve \<and> ge = Inr () \<and> passes fe \<and> reports qe \<longrightarrow>
       answers_400 (transaction_atomic (extra bulk True pe ve ge fe qe)))
   \<and> (pe = Inl x \<longrightarrow>
       transaction_atomic (extra bulk lg pe ve ge fe qe) = (Raised x, RolledBack))
   \<and> (passes pe \<and> ve = Inl x \<longrightarrow>
       transaction_atomic (extra bulk lg pe ve ge fe qe) = (Raised x, RolledBack))
   \<and> (passes pe \<and> passes ve \<and> ge = Inl x \<longrightarrow>
       transaction_atomic (extra bulk lg pe ve ge fe qe) = (Raised x, RolledBack))
   \<and> (passes pe \<and> passes ve \<and> ge = Inr () \<and> passes fe \<and> qe = Inl x \<longrightarrow>
       transaction_atomic (extra bulk lg pe ve ge fe qe) = (Raised x, RolledBack))"
  by (intro conjI impI)
    (auto simp: list_flow_def retrieve_def create_def bulk_update_def update_def destroy_def
       extra_def reports_def passes_def answers_400_reject atomic_raised Let_def
       answers_400_def transaction_atomic_def logger_error_def set_response_def reject_def
     split: sum.splits prod.splits)


theorem crud_flows_reject_errors_witness:
  "answers_400 (transaction_atomic
     (list_flow True hook_reports (Inr ok_response) (\<lambda>r. Inr (PNone, PStr [], r))))
   \<and> answers_400 (transaction_atomic
     (destroy True hook_ok hook_ok (Inr ()) (Inl (HookError ''boom'')) hook_ok))
   \<and> answers_400 (transaction_atomic
     (extra False True hook_ok hook_ok (Inr ()) (Inr (PNone, PStr [], ok_response)) hook_reports))
   \<and> transaction_atomic
       (retrieve True hook_ok (Inl (HookError ''missing'')) (Inr (PNone, PStr [], ok_response)) hook_ok)
       = (Raised (HookError ''missing''), RolledBack)"
  using crud_flows_reject_errors
    [where pl = hook_reports and fl = "Inr ok_response" and ql = "\<lambda>r. Inr (PNone, PStr [], r)"
       and px = hook_ok and vx = hook_ok and gx = "Inr ()" and fx = "Inl (HookError ''boom'')"
       and qx = hook_ok
       and bulk = False and pe = hook_ok and ve = hook_ok and ge = "Inr ()"
       and fe = "Inr (PNone, PStr [], ok_response)" and qe = hook_reports
       and lg = True and pr = hook_ok and gr = "Inl (HookError ''missing'')"
       and fr = "Inr (PNone, PStr [], ok_response)" and qr = hook_ok
       and x = "HookError ''missing''"]
  by (simp add: reports_def passes_def hook_ok_def hook_reports_def)

end
